theory Spec2Isabelle
  imports Main "HOL-Library.Word"
begin

section \<open>Values, arrays and errors\<close>

text \<open>
  The writer of \<^verbatim>\<open>dclab/rtdc_dataset/writer.py\<close> stores numpy arrays, text lines and
  metadata in an HDF5 container through h5py. Element values are kept as tagged items.
  A floating-point or wider integer element is copied, never computed with, so it is
  an \<open>IOther\<close> item: the name of its element type and its value written as an integer.
\<close>

type_synonym byte = "8 word"

type_synonym unicode = "nat list"

datatype dtype = DBool | DUInt8 | DBytes nat | DOther string

datatype item = IBool bool | IUInt8 byte | IBytes "byte list" | IOther string int

fun dtype_of :: "item \<Rightarrow> dtype" where
  "dtype_of (IBool b) = DBool"
| "dtype_of (IUInt8 w) = DUInt8"
| "dtype_of (IBytes bs) = DBytes (length bs)"
| "dtype_of (IOther n v) = DOther n"

text \<open>
  An array of at least one dimension: its leading dimension indexes the events, each
  event is one row holding the elements of the trailing shape in row-major order.
\<close>

record ndarray =
  nd_dtype :: dtype
  nd_tshape :: "nat list"
  nd_rows :: "item list list"

definition shape :: "ndarray \<Rightarrow> nat list" where
  "shape a = length (nd_rows a) # nd_tshape a"

text \<open>\<^verbatim>\<open>data[start:stop]\<close> along the first axis.\<close>

definition nd_slice :: "ndarray \<Rightarrow> nat \<Rightarrow> nat \<Rightarrow> ndarray" where
  "nd_slice a start stop = a\<lparr>nd_rows := take (stop - start) (drop start (nd_rows a))\<rparr>"

datatype array_like = Scalar item | Array ndarray

definition atleast_1d :: "array_like \<Rightarrow> ndarray" where
  "atleast_1d d =
     (case d of
        Scalar x \<Rightarrow> \<lparr>nd_dtype = dtype_of x, nd_tshape = [], nd_rows = [[x]]\<rparr>
      | Array a \<Rightarrow> a)"

definition atleast_2d :: "array_like \<Rightarrow> ndarray" where
  "atleast_2d d =
     (case d of
        Scalar x \<Rightarrow> \<lparr>nd_dtype = dtype_of x, nd_tshape = [1], nd_rows = [[x]]\<rparr>
      | Array a \<Rightarrow>
          if nd_tshape a = []
          then \<lparr>nd_dtype = nd_dtype a, nd_tshape = [length (nd_rows a)],
                nd_rows = [concat (nd_rows a)]\<rparr>
          else a)"

text \<open>
  Exceptions are values. The three \<^verbatim>\<open>ValueError\<close>s and the \<^verbatim>\<open>NotImplementedError\<close>
  the writer raises itself are told apart by their message; \<open>EngineError\<close> is any
  exception raised inside h5py, \<open>PyTypeError\<close> a value of the wrong Python type.
  An outcome keeps the state the container is left in when the exception escapes;
  \<open>map_outcome\<close> applies a function to that state.
\<close>

datatype error =
    UndefinedFeature string
  | UnknownTraceKey string
  | NoRuleToStore string
  | MetaSectionNotDefined string
  | MetaKeyNotDefined string string
  | EngineError
  | PyTypeError
  | UnicodeError
  | ConversionError

datatype 'a outcome = Done 'a | Raised error 'a

fun outcome_state :: "'a outcome \<Rightarrow> 'a" where
  "outcome_state (Done s) = s"
| "outcome_state (Raised e s) = s"

section \<open>The storage engine\<close>

text \<open>
  The part of h5py the writer calls. A dataset keeps its element type, its trailing
  shape, its rows and its creation properties; a group maps names to datasets and
  groups. What the engine does when it converts an element to another element type is
  left open (\<open>h5_convert\<close>); an element of the dataset's own type is stored as it is,
  and a byte string stored in a fixed-width string dataset is cut or padded with NUL
  bytes to the width. A slice write takes a value whose events have the dataset's
  trailing shape, one event per selected row; any other value is an engine error.
\<close>

datatype chunking = AutoChunks | Chunks "nat list"

record dataset =
  ds_dtype :: dtype
  ds_tshape :: "nat list"
  ds_rows :: "item list list"
  ds_maxshape :: "nat option list"
  ds_chunks :: chunking
  ds_fletcher32 :: bool
  ds_compression :: "string option"
  ds_attrs :: "string \<rightharpoonup> string"

datatype node = DSet dataset | Grp "string \<Rightarrow> node option"

type_synonym group = "string \<rightharpoonup> node"

definition fixed_width :: "nat \<Rightarrow> byte list \<Rightarrow> byte list" where
  "fixed_width w bs = take w bs @ replicate (w - length bs) 0"

fun fill_item :: "dtype \<Rightarrow> item" where
  "fill_item DBool = IBool False"
| "fill_item DUInt8 = IUInt8 0"
| "fill_item (DBytes w) = IBytes (replicate w 0)"
| "fill_item (DOther n) = IOther n 0"

definition h5_store :: "(dtype \<Rightarrow> item \<Rightarrow> item) \<Rightarrow> dtype \<Rightarrow> item \<Rightarrow> item" where
  "h5_store conv d x =
     (case (d, x) of
        (DBytes w, IBytes bs) \<Rightarrow> IBytes (fixed_width w bs)
      | _ \<Rightarrow> if dtype_of x = d then x else conv d x)"

definition valid_chunks :: "chunking \<Rightarrow> nat list \<Rightarrow> bool" where
  "valid_chunks c shp =
     (case c of
        AutoChunks \<Rightarrow> True
      | Chunks cs \<Rightarrow> length cs = length shp \<and> list_all (\<lambda>k. 0 < k) cs)"

definition fits_maxshape :: "nat list \<Rightarrow> nat option list \<Rightarrow> bool" where
  "fits_maxshape shp maxshp =
     list_all2 (\<lambda>s m. case m of None \<Rightarrow> True | Some k \<Rightarrow> s \<le> k) shp maxshp"

text \<open>
  \<^verbatim>\<open>group.create_dataset(name, shape=..., dtype=..., maxshape=..., chunks=..., ...)\<close>:
  the new dataset, filled with the fill value; the caller binds it to \<open>name\<close>.
\<close>

definition h5_create_dataset ::
  "group \<Rightarrow> string \<Rightarrow> nat list \<Rightarrow> dtype \<Rightarrow> nat option list \<Rightarrow> chunking \<Rightarrow> bool \<Rightarrow>
   string option \<Rightarrow> error + dataset" where
  "h5_create_dataset grp name shp dt maxshp chunks fl codec =
     (if name \<in> dom grp then Inl EngineError
      else if shp = [] then Inl EngineError
      else if \<not> fits_maxshape shp maxshp then Inl EngineError
      else if \<not> valid_chunks chunks shp then Inl EngineError
      else Inr \<lparr>ds_dtype = dt, ds_tshape = tl shp,
                ds_rows = replicate (hd shp) (replicate (prod_list (tl shp)) (fill_item dt)),
                ds_maxshape = maxshp, ds_chunks = chunks, ds_fletcher32 = fl,
                ds_compression = codec, ds_attrs = Map.empty\<rparr>)"

text \<open>\<^verbatim>\<open>dset.resize(n, axis=0)\<close>.\<close>

definition h5_resize :: "dataset \<Rightarrow> nat \<Rightarrow> error + dataset" where
  "h5_resize ds n =
     (case ds_maxshape ds of
        [] \<Rightarrow> Inl EngineError
      | m # ms \<Rightarrow>
          if (case m of None \<Rightarrow> True | Some k \<Rightarrow> n \<le> k)
          then Inr (ds\<lparr>ds_rows := take n (ds_rows ds) @
                   replicate (n - length (ds_rows ds))
                     (replicate (prod_list (ds_tshape ds)) (fill_item (ds_dtype ds)))\<rparr>)
          else Inl EngineError)"

text \<open>
  \<^verbatim>\<open>dset[a:b] = val\<close>. The bounds are clipped to the dataset's length as Python clips a
  slice; h5py returns at once when the selection holds no element.
\<close>

definition h5_setslice ::
  "(dtype \<Rightarrow> item \<Rightarrow> item) \<Rightarrow> dataset \<Rightarrow> nat \<Rightarrow> nat \<Rightarrow> ndarray \<Rightarrow> error + dataset" where
  "h5_setslice conv ds a b val =
     (let n = length (ds_rows ds); a' = min a n; b' = min b n; cnt = b' - a' in
      if cnt * prod_list (ds_tshape ds) = 0 then Inr ds
      else if nd_tshape val \<noteq> ds_tshape ds \<or> length (nd_rows val) \<noteq> cnt then Inl EngineError
      else Inr (ds\<lparr>ds_rows := take a' (ds_rows ds) @
                  map (map (h5_store conv (ds_dtype ds))) (nd_rows val) @
                  drop b' (ds_rows ds)\<rparr>))"

text \<open>\<^verbatim>\<open>dset[i] = x\<close> for one scalar value, repeated over the event's elements.\<close>

definition h5_setitem ::
  "(dtype \<Rightarrow> item \<Rightarrow> item) \<Rightarrow> dataset \<Rightarrow> nat \<Rightarrow> item \<Rightarrow> error + dataset" where
  "h5_setitem conv ds i x =
     (if length (ds_rows ds) \<le> i then Inl EngineError
      else Inr (ds\<lparr>ds_rows := (ds_rows ds)
                  [i := replicate (prod_list (ds_tshape ds)) (h5_store conv (ds_dtype ds) x)]\<rparr>))"

text \<open>\<^verbatim>\<open>group.require_group(name)\<close>: the subgroup, empty when it is new.\<close>

definition require_group :: "group \<Rightarrow> string \<Rightarrow> error + group" where
  "require_group grp name =
     (case grp name of
        None \<Rightarrow> Inr Map.empty
      | Some (Grp sub) \<Rightarrow> Inr sub
      | Some (DSet ds) \<Rightarrow> Inl EngineError)"

section \<open>The writer\<close>

datatype mode = Append | Replace | Reset

record writer =
  mode :: mode
  compression :: "string option"
  h5_convert :: "dtype \<Rightarrow> item \<Rightarrow> item"

definition CHUNK_SIZE :: nat where
  "CHUNK_SIZE = 100"

subsection \<open>write_ndarray\<close>

text \<open>
  The first half of \<^verbatim>\<open>write_ndarray\<close>: the dataset is created with the shape of the
  data and the element type \<^verbatim>\<open>dtype or data.dtype\<close>, or the existing one is grown by the
  number of events of the data. The result is the dataset and the offset of the first
  new event.
\<close>

definition open_dataset ::
  "writer \<Rightarrow> group \<Rightarrow> string \<Rightarrow> ndarray \<Rightarrow> dtype option \<Rightarrow> error + (dataset \<times> nat)" where
  "open_dataset w grp name data dt =
     (if name \<notin> dom grp then
        (case h5_create_dataset grp name (shape data)
                (case dt of None \<Rightarrow> nd_dtype data | Some d \<Rightarrow> d)
                (None # map Some (tl (shape data))) (Chunks (CHUNK_SIZE # tl (shape data)))
                True (compression w) of
           Inl e \<Rightarrow> Inl e
         | Inr dset \<Rightarrow> Inr (dset, 0))
      else
        (case grp name of
           Some (DSet dset) \<Rightarrow>
             (let offset = length (ds_rows dset) in
              case h5_resize dset (offset + length (nd_rows data)) of
                Inl e \<Rightarrow> Inl e
              | Inr dset' \<Rightarrow> Inr (dset', offset))
         | _ \<Rightarrow> Inl PyTypeError))"

text \<open>The loop \<^verbatim>\<open>for ii in range(num_chunks)\<close>, over the list of its indices.\<close>

fun write_blocks ::
  "writer \<Rightarrow> nat \<Rightarrow> ndarray \<Rightarrow> nat list \<Rightarrow> dataset \<Rightarrow> dataset outcome" where
  "write_blocks w offset data [] dset = Done dset"
| "write_blocks w offset data (ii # iis) dset =
     (let start = ii * CHUNK_SIZE; stop = start + CHUNK_SIZE in
      case h5_setslice (h5_convert w) dset (offset + start) (offset + stop)
             (nd_slice data start stop) of
        Inl e \<Rightarrow> Raised e dset
      | Inr dset' \<Rightarrow> write_blocks w offset data iis dset')"

definition write_remainder ::
  "writer \<Rightarrow> nat \<Rightarrow> ndarray \<Rightarrow> dataset \<Rightarrow> dataset outcome" where
  "write_remainder w offset data dset =
     (let num_chunks = length (nd_rows data) div CHUNK_SIZE;
          num_remain = length (nd_rows data) mod CHUNK_SIZE in
      if num_remain \<noteq> 0 then
        (let start_e = num_chunks * CHUNK_SIZE; stop_e = start_e + num_remain in
         case h5_setslice (h5_convert w) dset (offset + start_e) (offset + stop_e)
                (nd_slice data start_e stop_e) of
           Inl e \<Rightarrow> Raised e dset
         | Inr dset' \<Rightarrow> Done dset')
      else Done dset)"

definition populate_chunked ::
  "writer \<Rightarrow> nat \<Rightarrow> ndarray \<Rightarrow> dataset \<Rightarrow> dataset outcome" where
  "populate_chunked w offset data dset =
     (case write_blocks w offset data [0..<length (nd_rows data) div CHUNK_SIZE] dset of
        Raised e d \<Rightarrow> Raised e d
      | Done d \<Rightarrow> write_remainder w offset data d)"

text \<open>\<^verbatim>\<open>dset[offset:] = data\<close>, the single write of the one-dimensional branch.\<close>

definition populate_bulk ::
  "writer \<Rightarrow> nat \<Rightarrow> ndarray \<Rightarrow> dataset \<Rightarrow> dataset outcome" where
  "populate_bulk w offset data dset =
     (case h5_setslice (h5_convert w) dset offset (length (ds_rows dset)) data of
        Inl e \<Rightarrow> Raised e dset
      | Inr dset' \<Rightarrow> Done dset')"

definition write_ndarray ::
  "writer \<Rightarrow> group \<Rightarrow> string \<Rightarrow> ndarray \<Rightarrow> dtype option \<Rightarrow> group outcome" where
  "write_ndarray w grp name data dt =
     (case open_dataset w grp name data dt of
        Inl e \<Rightarrow> Raised e grp
      | Inr (dset, offset) \<Rightarrow>
          map_outcome (\<lambda>d. grp(name \<mapsto> DSet d))
            (if length (shape data) = 1 then populate_bulk w offset data dset
             else populate_chunked w offset data dset))"

text \<open>
  The reference the chunked branch is compared with: \<^verbatim>\<open>write_ndarray\<close> with the whole
  new slice written in one operation at the same offset, whatever the dimension.
\<close>

definition write_ndarray_bulk ::
  "writer \<Rightarrow> group \<Rightarrow> string \<Rightarrow> ndarray \<Rightarrow> dtype option \<Rightarrow> group outcome" where
  "write_ndarray_bulk w grp name data dt =
     (case open_dataset w grp name data dt of
        Inl e \<Rightarrow> Raised e grp
      | Inr (dset, offset) \<Rightarrow>
          map_outcome (\<lambda>d. grp(name \<mapsto> DSet d)) (populate_bulk w offset data dset))"

subsection \<open>write_image_grayscale\<close>

text \<open>\<^verbatim>\<open>data.reshape(1, data.shape[0], data.shape[1])\<close> of a two-dimensional array.\<close>

definition reshape_single :: "ndarray \<Rightarrow> ndarray" where
  "reshape_single a =
     \<lparr>nd_dtype = nd_dtype a, nd_tshape = [hd (shape a), hd (tl (shape a))],
      nd_rows = [concat (nd_rows a)]\<rparr>"

text \<open>
  \<^verbatim>\<open>np.asarray(data, dtype=np.uint8) * 255\<close> on an array of booleans, whose items are
  \<open>IBool\<close>: the cast gives 0 and 1, the product is taken in 8 bits.
\<close>

fun bool_item_to_uint8 :: "item \<Rightarrow> item" where
  "bool_item_to_uint8 (IBool b) = IUInt8 ((if b then 1 else 0) * 255)"
| "bool_item_to_uint8 x = x"

definition bool_to_uint8 :: "ndarray \<Rightarrow> ndarray" where
  "bool_to_uint8 a = a\<lparr>nd_dtype := DUInt8, nd_rows := map (map bool_item_to_uint8) (nd_rows a)\<rparr>"

definition image_data :: "array_like \<Rightarrow> ndarray" where
  "image_data d =
     (let data = atleast_2d d;
          data = (if length (shape data) = 2 then reshape_single data else data)
      in if nd_dtype data = DBool then bool_to_uint8 data else data)"

definition write_image_grayscale ::
  "writer \<Rightarrow> group \<Rightarrow> string \<Rightarrow> array_like \<Rightarrow> group outcome" where
  "write_image_grayscale w grp name d =
     (case write_ndarray w grp name (image_data d) None of
        Raised e g \<Rightarrow> Raised e g
      | Done g \<Rightarrow>
          (case g name of
             Some (DSet dset) \<Rightarrow>
               Done (g(name \<mapsto> DSet (dset\<lparr>ds_attrs := (ds_attrs dset)
                  (''CLASS'' \<mapsto> ''IMAGE'', ''IMAGE_VERSION'' \<mapsto> ''1.2'',
                   ''IMAGE_SUBCLASS'' \<mapsto> ''IMAGE_GRAYSCALE'')\<rparr>)))
           | _ \<Rightarrow> Raised PyTypeError g))"

subsection \<open>write_ragged\<close>

text \<open>\<^verbatim>\<open>"{}".format(n)\<close> for a natural number: its decimal digits.\<close>

definition digit10 :: "nat \<Rightarrow> char" where
  "digit10 n = ''0123456789'' ! n"

fun str_nat :: "nat \<Rightarrow> string" where
  "str_nat n = (if n < 10 then [digit10 n] else str_nat (n div 10) @ [digit10 (n mod 10)])"

declare str_nat.simps [simp del]

text \<open>
  The data a feature is stored from: one array (or scalar), a Python list or tuple of
  per-event arrays, or a dictionary from channel names to arrays. A list given where
  numpy must build one array from it stands for a ragged one, which numpy refuses.
\<close>

datatype feature_data =
    ArrayData array_like
  | ListData "array_like list"
  | DictData "(string \<times> array_like) list"

text \<open>
  \<^verbatim>\<open>grp.create_dataset(name, data=cc, fletcher32=True, chunks=cc.shape, ...)\<close>: a
  dataset of the shape and element type of \<open>cc\<close>, holding its elements. A
  zero-dimensional \<open>cc\<close> has the empty shape.
\<close>

definition create_from_data ::
  "writer \<Rightarrow> group \<Rightarrow> string \<Rightarrow> array_like \<Rightarrow> error + dataset" where
  "create_from_data w grp name cc =
     (case cc of
        Scalar x \<Rightarrow>
          h5_create_dataset grp name [] (dtype_of x) [] (Chunks []) True (compression w)
      | Array a \<Rightarrow>
          (case h5_create_dataset grp name (shape a) (nd_dtype a) (map Some (shape a))
                  (Chunks (shape a)) True (compression w) of
             Inl e \<Rightarrow> Inl e
           | Inr dset \<Rightarrow> Inr (dset\<lparr>ds_rows := nd_rows a\<rparr>)))"

text \<open>The loop \<^verbatim>\<open>for ii, cc in enumerate(data)\<close>; \<open>i\<close> is \<^verbatim>\<open>curid + ii\<close>.\<close>

fun create_entries :: "writer \<Rightarrow> nat \<Rightarrow> array_like list \<Rightarrow> group \<Rightarrow> group outcome" where
  "create_entries w i [] grp = Done grp"
| "create_entries w i (cc # ccs) grp =
     (case create_from_data w grp (str_nat i) cc of
        Inl e \<Rightarrow> Raised e grp
      | Inr dset \<Rightarrow> create_entries w (Suc i) ccs (grp(str_nat i \<mapsto> DSet dset)))"

definition write_ragged :: "writer \<Rightarrow> group \<Rightarrow> string \<Rightarrow> feature_data \<Rightarrow> group outcome" where
  "write_ragged w pgroup name data =
     (case require_group pgroup name of
        Inl e \<Rightarrow> Raised e pgroup
      | Inr grp \<Rightarrow>
          (let curid = card (dom grp) in
           case data of
             ArrayData cc \<Rightarrow>
               map_outcome (\<lambda>g. pgroup(name \<mapsto> Grp g)) (create_entries w curid [cc] grp)
           | ListData ccs \<Rightarrow>
               map_outcome (\<lambda>g. pgroup(name \<mapsto> Grp g)) (create_entries w curid ccs grp)
           | DictData d \<Rightarrow> Raised PyTypeError (pgroup(name \<mapsto> Grp grp))))"

subsection \<open>write_text\<close>

text \<open>
  A Python \<^verbatim>\<open>str\<close> is the list of its code points. \<^verbatim>\<open>str.encode("UTF-8")\<close> fails on a
  surrogate; \<^verbatim>\<open>bytes.decode("utf-8")\<close> accepts exactly the encodings of code points.
\<close>

definition utf8_encode_cp :: "nat \<Rightarrow> byte list option" where
  "utf8_encode_cp c =
     (if c < 0x80 then Some [of_nat c]
      else if c < 0x800 then Some [of_nat (0xC0 + c div 64), of_nat (0x80 + c mod 64)]
      else if 0xD800 \<le> c \<and> c < 0xE000 then None
      else if c < 0x10000 then
        Some [of_nat (0xE0 + c div 4096), of_nat (0x80 + c div 64 mod 64),
              of_nat (0x80 + c mod 64)]
      else if c < 0x110000 then
        Some [of_nat (0xF0 + c div 262144), of_nat (0x80 + c div 4096 mod 64),
              of_nat (0x80 + c div 64 mod 64), of_nat (0x80 + c mod 64)]
      else None)"

fun utf8_encode :: "unicode \<Rightarrow> byte list option" where
  "utf8_encode [] = Some []"
| "utf8_encode (c # cs) =
     (case utf8_encode_cp c of
        None \<Rightarrow> None
      | Some bs \<Rightarrow> map_option ((@) bs) (utf8_encode cs))"

definition utf8_len :: "byte \<Rightarrow> nat" where
  "utf8_len b =
     (if unat b < 0x80 then 1
      else if 0xC0 \<le> unat b \<and> unat b < 0xE0 then 2
      else if 0xE0 \<le> unat b \<and> unat b < 0xF0 then 3
      else if 0xF0 \<le> unat b \<and> unat b < 0xF8 then 4
      else 0)"

definition utf8_cp :: "byte \<Rightarrow> byte list \<Rightarrow> nat" where
  "utf8_cp b cont =
     foldl (\<lambda>acc x. acc * 64 + unat x mod 64)
       (if cont = [] then unat b else unat b mod (2 ^ (7 - Suc (length cont)))) cont"

fun utf8_decode :: "byte list \<Rightarrow> unicode option" where
  "utf8_decode [] = Some []"
| "utf8_decode (b # bs) =
     (let n = utf8_len b in
      if n = 0 \<or> length bs < n - 1 then None
      else
        (let c = utf8_cp b (take (n - 1) bs) in
         if utf8_encode_cp c = Some (b # take (n - 1) bs)
         then map_option ((#) c) (utf8_decode (drop (n - 1) bs))
         else None))"

datatype line = LStr unicode | LBytes "byte list"

datatype lines_arg = OneStr unicode | OneBytes "byte list" | LineList "line list"

definition line_bytes :: "line \<Rightarrow> byte list option" where
  "line_bytes l = (case l of LStr s \<Rightarrow> utf8_encode s | LBytes bs \<Rightarrow> Some bs)"

text \<open>
  The loop \<^verbatim>\<open>for line in lines\<close> that encodes the lines and tracks \<^verbatim>\<open>max_length\<close>.
\<close>

fun encode_lines ::
  "line list \<Rightarrow> nat \<Rightarrow> byte list list \<Rightarrow> (nat \<times> byte list list) option" where
  "encode_lines [] max_length lines_as_bytes = Some (max_length, lines_as_bytes)"
| "encode_lines (l # ls) max_length lines_as_bytes =
     (case line_bytes l of
        None \<Rightarrow> None
      | Some lbytes \<Rightarrow>
          encode_lines ls (max max_length (length lbytes)) (lines_as_bytes @ [lbytes]))"

text \<open>The loop \<^verbatim>\<open>for ii, lbytes in enumerate(lines_as_bytes)\<close>; \<open>i\<close> is \<^verbatim>\<open>line_offset + ii\<close>.\<close>

fun write_lines :: "writer \<Rightarrow> dataset \<Rightarrow> nat \<Rightarrow> byte list list \<Rightarrow> dataset outcome" where
  "write_lines w dset i [] = Done dset"
| "write_lines w dset i (lbytes # rest) =
     (case h5_setitem (h5_convert w) dset i (IBytes lbytes) of
        Inl e \<Rightarrow> Raised e dset
      | Inr dset' \<Rightarrow> write_lines w dset' (Suc i) rest)"

definition open_text_dataset ::
  "writer \<Rightarrow> group \<Rightarrow> string \<Rightarrow> nat \<Rightarrow> nat \<Rightarrow> error + (dataset \<times> nat)" where
  "open_text_dataset w grp name lnum max_length =
     (if name \<notin> dom grp then
        (case h5_create_dataset grp name [lnum] (DBytes max_length) [None] AutoChunks
                True (compression w) of
           Inl e \<Rightarrow> Inl e
         | Inr dset \<Rightarrow> Inr (dset, 0))
      else
        (case grp name of
           Some (DSet dset) \<Rightarrow>
             (let line_offset = length (ds_rows dset) in
              case h5_resize dset (line_offset + lnum) of
                Inl e \<Rightarrow> Inl e
              | Inr dset' \<Rightarrow> Inr (dset', line_offset))
         | _ \<Rightarrow> Inl PyTypeError))"

text \<open>\<^verbatim>\<open>if isinstance(lines, (str, bytes)): lines = [lines]\<close>.\<close>

definition as_line_list :: "lines_arg \<Rightarrow> line list" where
  "as_line_list lines_in =
     (case lines_in of
        OneStr s \<Rightarrow> [LStr s]
      | OneBytes bs \<Rightarrow> [LBytes bs]
      | LineList ls \<Rightarrow> ls)"

definition write_text :: "writer \<Rightarrow> group \<Rightarrow> string \<Rightarrow> lines_arg \<Rightarrow> group outcome" where
  "write_text w pgroup name lines_in =
     (let grp = (if name \<in> dom pgroup \<and> mode w = Replace then pgroup(name := None) else pgroup);
          lines = as_line_list lines_in;
          lnum = length lines
      in case encode_lines lines 100 [] of
           None \<Rightarrow> Raised UnicodeError grp
         | Some (max_length, lines_as_bytes) \<Rightarrow>
             (case open_text_dataset w grp name lnum max_length of
                Inl e \<Rightarrow> Raised e grp
              | Inr (txt_dset, line_offset) \<Rightarrow>
                  map_outcome (\<lambda>d. grp(name \<mapsto> DSet d))
                    (write_lines w txt_dset line_offset lines_as_bytes)))"

subsection \<open>The container and the registry\<close>

text \<open>
  Metadata values are strings, byte strings, integers and booleans. The container is
  its root attributes and its root group.
\<close>

datatype mvalue = MStr unicode | MBytes "byte list" | MInt int | MBool bool

record h5file =
  attrs :: "string \<rightharpoonup> mvalue"
  root :: group

text \<open>
  \<^verbatim>\<open>dclab.definitions\<close> and \<^verbatim>\<open>dclab._version\<close> are not part of the writer: the feature
  registry, the trace vocabulary, the metadata registry with its converters (\<open>None\<close>
  when a converter raises) and the version string are parameters.
\<close>

record dclab =
  feature_exists :: "string \<Rightarrow> bool"
  scalar_feature_exists :: "string \<Rightarrow> bool"
  FLUOR_TRACES :: "string list"
  CFG_METADATA :: "string list"
  config_key_exists :: "string \<Rightarrow> string \<Rightarrow> bool"
  get_config_value_func :: "string \<Rightarrow> string \<Rightarrow> mvalue \<Rightarrow> mvalue option"
  version :: string

subsection \<open>store_feature\<close>

text \<open>
  The loop of the replace branch for \<^verbatim>\<open>trace\<close>:
  \<^verbatim>\<open>if tr_name in events[feat]: del events[feat][tr_name]\<close>.
\<close>

fun delete_channels :: "string list \<Rightarrow> group \<Rightarrow> string \<Rightarrow> group" where
  "delete_channels [] events feat = events"
| "delete_channels (tr_name # rest) events feat =
     (case events feat of
        Some (Grp tr) \<Rightarrow> delete_channels rest (events(feat \<mapsto> Grp (tr(tr_name := None)))) feat
      | _ \<Rightarrow> delete_channels rest events feat)"

definition replace_existing ::
  "writer \<Rightarrow> group \<Rightarrow> string \<Rightarrow> feature_data \<Rightarrow> group outcome" where
  "replace_existing w events feat data =
     (if feat \<in> dom events \<and> mode w = Replace then
        (if feat = ''trace'' then
           (case data of
              DictData d \<Rightarrow> Done (delete_channels (map fst d) events feat)
            | _ \<Rightarrow> Raised PyTypeError events)
         else Done (events(feat := None)))
      else Done events)"

text \<open>The loop \<^verbatim>\<open>for tr_name in data.keys()\<close> of the \<^verbatim>\<open>trace\<close> branch.\<close>

fun write_traces ::
  "dclab \<Rightarrow> writer \<Rightarrow> (string \<times> array_like) list \<Rightarrow> group \<Rightarrow> group outcome" where
  "write_traces dfn w [] events = Done events"
| "write_traces dfn w ((tr_name, d) # rest) events =
     (if tr_name \<notin> set (FLUOR_TRACES dfn) then Raised (UnknownTraceKey tr_name) events
      else
        (case require_group events ''trace'' of
           Inl e \<Rightarrow> Raised e events
         | Inr tr \<Rightarrow>
             (case write_ndarray w tr tr_name (atleast_2d d) None of
                Raised e tr' \<Rightarrow> Raised e (events(''trace'' \<mapsto> Grp tr'))
              | Done tr' \<Rightarrow> write_traces dfn w rest (events(''trace'' \<mapsto> Grp tr')))))"

definition write_feature ::
  "dclab \<Rightarrow> writer \<Rightarrow> group \<Rightarrow> string \<Rightarrow> feature_data \<Rightarrow> group outcome" where
  "write_feature dfn w events feat data =
     (if scalar_feature_exists dfn feat then
        (case data of
           ArrayData a \<Rightarrow> write_ndarray w events feat (atleast_1d a) None
         | _ \<Rightarrow> Raised PyTypeError events)
      else if feat = ''contour'' then write_ragged w events feat data
      else if feat \<in> set [''image'', ''image_bg'', ''mask''] then
        (case data of
           ArrayData a \<Rightarrow> write_image_grayscale w events feat a
         | _ \<Rightarrow> Raised PyTypeError events)
      else if feat = ''trace'' then
        (case data of
           DictData d \<Rightarrow> write_traces dfn w d events
         | _ \<Rightarrow> Raised PyTypeError events)
      else Raised (NoRuleToStore feat) events)"

definition store_feature ::
  "dclab \<Rightarrow> writer \<Rightarrow> h5file \<Rightarrow> string \<Rightarrow> feature_data \<Rightarrow> h5file outcome" where
  "store_feature dfn w file feat data =
     (if \<not> feature_exists dfn feat then Raised (UndefinedFeature feat) file
      else
        (case require_group (root file) ''events'' of
           Inl e \<Rightarrow> Raised e file
         | Inr events \<Rightarrow>
             map_outcome (\<lambda>ev. file\<lparr>root := (root file)(''events'' \<mapsto> Grp ev)\<rparr>)
               (case replace_existing w events feat data of
                  Raised e ev \<Rightarrow> Raised e ev
                | Done ev \<Rightarrow> write_feature dfn w ev feat data)))"

subsection \<open>store_log\<close>

definition store_log :: "writer \<Rightarrow> h5file \<Rightarrow> string \<Rightarrow> lines_arg \<Rightarrow> h5file outcome" where
  "store_log w file name lines =
     (case require_group (root file) ''logs'' of
        Inl e \<Rightarrow> Raised e file
      | Inr log_group \<Rightarrow>
          map_outcome (\<lambda>g. file\<lparr>root := (root file)(''logs'' \<mapsto> Grp g)\<rparr>)
            (write_text w log_group name lines))"

subsection \<open>store_metadata\<close>

text \<open>
  The metadata is a dictionary of dictionaries, kept as association lists in insertion
  order. \<open>dict_set\<close> is \<^verbatim>\<open>d[k] = v\<close>.
\<close>

type_synonym meta = "(string \<times> (string \<times> mvalue) list) list"

fun dict_set :: "'k \<Rightarrow> 'v \<Rightarrow> ('k \<times> 'v) list \<Rightarrow> ('k \<times> 'v) list" where
  "dict_set k v [] = [(k, v)]"
| "dict_set k v ((k', v') # kvs) =
     (if k' = k then (k, v) # kvs else (k', v') # dict_set k v kvs)"

definition ustr :: "string \<Rightarrow> unicode" where
  "ustr s = map of_char s"

text \<open>
  \<^verbatim>\<open>str(value)\<close>, as an f-string formats a value: a string as it is, a byte string as
  its \<^verbatim>\<open>repr\<close>, an integer in decimal, a boolean as \<^verbatim>\<open>True\<close> or \<^verbatim>\<open>False\<close>.
\<close>

definition hex_digit :: "nat \<Rightarrow> nat" where
  "hex_digit n = of_char (''0123456789abcdef'' ! n)"

definition repr_byte :: "nat \<Rightarrow> byte \<Rightarrow> unicode" where
  "repr_byte q b =
     (let c = unat b in
      if c = q \<or> c = 92 then [92, c]
      else if c = 9 then [92, 116]
      else if c = 10 then [92, 110]
      else if c = 13 then [92, 114]
      else if c < 32 \<or> 127 \<le> c then [92, 120, hex_digit (c div 16), hex_digit (c mod 16)]
      else [c])"

definition bytes_repr :: "byte list \<Rightarrow> unicode" where
  "bytes_repr bs =
     (let q = (if 39 \<in> set bs \<and> 34 \<notin> set bs then 34 else 39) in
      [98, q] @ concat (map (repr_byte q) bs) @ [q])"

definition py_str :: "mvalue \<Rightarrow> unicode" where
  "py_str v =
     (case v of
        MStr s \<Rightarrow> s
      | MBytes bs \<Rightarrow> bytes_repr bs
      | MInt i \<Rightarrow> (if i < 0 then ustr (CHR ''-'' # str_nat (nat (- i))) else ustr (str_nat (nat i)))
      | MBool b \<Rightarrow> ustr (if b then ''True'' else ''False''))"

text \<open>The first loop: every section and key is checked against the registry.\<close>

fun check_keys :: "dclab \<Rightarrow> string \<Rightarrow> (string \<times> mvalue) list \<Rightarrow> error option" where
  "check_keys dfn sec [] = None"
| "check_keys dfn sec ((ck, v) # kvs) =
     (if \<not> config_key_exists dfn sec ck then Some (MetaKeyNotDefined sec ck)
      else check_keys dfn sec kvs)"

fun check_meta :: "dclab \<Rightarrow> meta \<Rightarrow> error option" where
  "check_meta dfn [] = None"
| "check_meta dfn ((sec, kvs) # rest) =
     (if sec = ''user'' then check_meta dfn rest
      else if sec \<notin> set (CFG_METADATA dfn) then Some (MetaSectionNotDefined sec)
      else (case check_keys dfn sec kvs of
              Some e \<Rightarrow> Some e
            | None \<Rightarrow> check_meta dfn rest))"

definition supplied_version :: "meta \<Rightarrow> mvalue option" where
  "supplied_version meta =
     (case map_of meta ''setup'' of
        None \<Rightarrow> None
      | Some kvs \<Rightarrow> map_of kvs ''software version'')"

definition brand_version :: "dclab \<Rightarrow> (string \<rightharpoonup> mvalue) \<Rightarrow> meta \<Rightarrow> meta" where
  "brand_version dfn file_attrs meta =
     (if ''setup:software version'' \<notin> dom file_attrs \<or> supplied_version meta \<noteq> None then
        (let thisver = ustr (''dclab '' @ version dfn);
             thisver = (case supplied_version meta of
                          Some oldver \<Rightarrow> py_str oldver @ ustr '' | '' @ thisver
                        | None \<Rightarrow> thisver);
             setup = (case map_of meta ''setup'' of None \<Rightarrow> [] | Some kvs \<Rightarrow> kvs)
         in dict_set ''setup'' (dict_set ''software version'' (MStr thisver) setup) meta)
      else meta)"

text \<open>The second loop: every value is written to its attribute \<^verbatim>\<open>sec:ck\<close>.\<close>

definition decode_bytes :: "mvalue \<Rightarrow> mvalue option" where
  "decode_bytes v =
     (case v of
        MBytes bs \<Rightarrow> map_option MStr (utf8_decode bs)
      | _ \<Rightarrow> Some v)"

fun write_section ::
  "dclab \<Rightarrow> string \<Rightarrow> (string \<times> mvalue) list \<Rightarrow> (string \<rightharpoonup> mvalue) \<Rightarrow>
   (string \<rightharpoonup> mvalue) outcome" where
  "write_section dfn sec [] file_attrs = Done file_attrs"
| "write_section dfn sec ((ck, v) # kvs) file_attrs =
     (let idk = sec @ '':'' @ ck in
      case decode_bytes v of
        None \<Rightarrow> Raised UnicodeError file_attrs
      | Some val \<Rightarrow>
          if sec = ''user'' then write_section dfn sec kvs (file_attrs(idk \<mapsto> val))
          else
            (case get_config_value_func dfn sec ck val of
               None \<Rightarrow> Raised ConversionError file_attrs
             | Some cv \<Rightarrow> write_section dfn sec kvs (file_attrs(idk \<mapsto> cv))))"

fun write_meta :: "dclab \<Rightarrow> meta \<Rightarrow> (string \<rightharpoonup> mvalue) \<Rightarrow> (string \<rightharpoonup> mvalue) outcome" where
  "write_meta dfn [] file_attrs = Done file_attrs"
| "write_meta dfn ((sec, kvs) # rest) file_attrs =
     (case write_section dfn sec kvs file_attrs of
        Raised e a \<Rightarrow> Raised e a
      | Done a \<Rightarrow> write_meta dfn rest a)"

definition store_metadata :: "dclab \<Rightarrow> h5file \<Rightarrow> meta \<Rightarrow> bool \<Rightarrow> h5file outcome" where
  "store_metadata dfn file meta version_brand =
     (case check_meta dfn meta of
        Some e \<Rightarrow> Raised e file
      | None \<Rightarrow>
          (let meta' = (if version_brand then brand_version dfn (attrs file) meta else meta)
           in map_outcome (\<lambda>a. file\<lparr>attrs := a\<rparr>) (write_meta dfn meta' (attrs file))))"

section \<open>Notions the properties are stated with\<close>

text \<open>
  The items of a numpy array have the array's element type. \<open>stored_feature\<close> reads
  the dataset \<^verbatim>\<open>/events/<feat>\<close>; a feature is absent when the events group, if there is
  one, has no member of its name.
\<close>

definition well_typed :: "ndarray \<Rightarrow> bool" where
  "well_typed a = list_all (list_all (\<lambda>x. dtype_of x = nd_dtype a)) (nd_rows a)"

definition stored_feature :: "h5file \<Rightarrow> string \<Rightarrow> dataset option" where
  "stored_feature file feat =
     (case root file ''events'' of
        Some (Grp ev) \<Rightarrow> (case ev feat of Some (DSet ds) \<Rightarrow> Some ds | _ \<Rightarrow> None)
      | _ \<Rightarrow> None)"

definition feature_absent :: "h5file \<Rightarrow> string \<Rightarrow> bool" where
  "feature_absent file feat =
     (case root file ''events'' of
        None \<Rightarrow> True
      | Some (Grp ev) \<Rightarrow> feat \<notin> dom ev
      | Some (DSet ds) \<Rightarrow> False)"

fun succeeded :: "'a outcome \<Rightarrow> bool" where
  "succeeded (Done s) = True"
| "succeeded (Raised e s) = False"

definition is_dataset :: "node option \<Rightarrow> bool" where
  "is_dataset n = (case n of Some (DSet ds) \<Rightarrow> True | _ \<Rightarrow> False)"

text \<open>
  Text datasets: the bytes of the lines of one call, the width and the records of a
  stored array, and a session of calls on one name, which ends at the first exception.
  \<open>claimed_width\<close> is the width as the specification words it: the larger of 100 and
  the longest byte length among the lines.
\<close>

fun encode_all :: "line list \<Rightarrow> byte list list option" where
  "encode_all [] = Some []"
| "encode_all (l # ls) =
     (case line_bytes l of
        None \<Rightarrow> None
      | Some b \<Rightarrow> map_option ((#) b) (encode_all ls))"

definition call_bytes :: "lines_arg \<Rightarrow> byte list list option" where
  "call_bytes c = encode_all (as_line_list c)"

definition claimed_width :: "byte list list \<Rightarrow> nat" where
  "claimed_width bs = Max (set (100 # map length bs))"

definition text_width :: "group \<Rightarrow> string \<Rightarrow> nat option" where
  "text_width g name =
     (case g name of
        Some (DSet ds) \<Rightarrow> (case ds_dtype ds of DBytes w \<Rightarrow> Some w | _ \<Rightarrow> None)
      | _ \<Rightarrow> None)"

definition record_bytes :: "item list \<Rightarrow> byte list" where
  "record_bytes row = (case row of [IBytes r] \<Rightarrow> r | _ \<Rightarrow> [])"

definition text_records :: "group \<Rightarrow> string \<Rightarrow> byte list list" where
  "text_records g name =
     (case g name of
        Some (DSet ds) \<Rightarrow> map record_bytes (ds_rows ds)
      | _ \<Rightarrow> [])"

fun write_text_calls :: "writer \<Rightarrow> group \<Rightarrow> string \<Rightarrow> lines_arg list \<Rightarrow> group outcome" where
  "write_text_calls w g name [] = Done g"
| "write_text_calls w g name (c # cs) =
     (case write_text w g name c of
        Raised e g' \<Rightarrow> Raised e g'
      | Done g' \<Rightarrow> write_text_calls w g' name cs)"

fun encode_calls :: "lines_arg list \<Rightarrow> byte list list option" where
  "encode_calls [] = Some []"
| "encode_calls (c # cs) =
     (case call_bytes c of
        None \<Rightarrow> None
      | Some bs \<Rightarrow> map_option ((@) bs) (encode_calls cs))"

text \<open>
  Ragged groups: the names \<^verbatim>\<open>"0"\<close>, ..., \<^verbatim>\<open>"k-1"\<close>, the names of the entries of a stored
  group, the events of one call, and a sequence of calls on one name. An event can be
  stored when it has at least one dimension and none of length 0.
\<close>

definition entry_names :: "nat \<Rightarrow> string set" where
  "entry_names k = set (map str_nat [0..<k])"

definition ragged_entries :: "group \<Rightarrow> string \<Rightarrow> string set" where
  "ragged_entries pg name = (case pg name of Some (Grp g) \<Rightarrow> dom g | _ \<Rightarrow> {})"

definition valid_event :: "array_like \<Rightarrow> bool" where
  "valid_event cc = (case cc of Scalar x \<Rightarrow> False | Array a \<Rightarrow> list_all (\<lambda>k. 0 < k) (shape a))"

fun event_list :: "feature_data \<Rightarrow> array_like list option" where
  "event_list (ArrayData cc) = Some [cc]"
| "event_list (ListData ccs) = Some ccs"
| "event_list (DictData d) = None"

definition valid_call :: "feature_data \<Rightarrow> bool" where
  "valid_call data = (case event_list data of None \<Rightarrow> False | Some ccs \<Rightarrow> list_all valid_event ccs)"

definition event_count :: "feature_data \<Rightarrow> nat" where
  "event_count data = (case event_list data of None \<Rightarrow> 0 | Some ccs \<Rightarrow> length ccs)"

fun write_ragged_calls ::
  "writer \<Rightarrow> group \<Rightarrow> string \<Rightarrow> feature_data list \<Rightarrow> group outcome" where
  "write_ragged_calls w pg name [] = Done pg"
| "write_ragged_calls w pg name (data # rest) =
     (case write_ragged w pg name data of
        Raised e pg' \<Rightarrow> Raised e pg'
      | Done pg' \<Rightarrow> write_ragged_calls w pg' name rest)"

text \<open>
  The array \<^verbatim>\<open>store_feature\<close> hands to \<^verbatim>\<open>write_ndarray\<close> for a scalar feature
  (\<^verbatim>\<open>np.atleast_1d(data)\<close>) or an image feature (the array \<^verbatim>\<open>write_image_grayscale\<close>
  builds).
\<close>

definition is_image_feature :: "string \<Rightarrow> bool" where
  "is_image_feature feat = (feat \<in> set [''image'', ''image_bg'', ''mask''])"

definition array_to_store :: "dclab \<Rightarrow> string \<Rightarrow> array_like \<Rightarrow> ndarray" where
  "array_to_store dfn feat d = (if scalar_feature_exists dfn feat then atleast_1d d else image_data d)"





text \<open>
  Metadata: the two errors of the validation loop; a mapping is valid when every
  section is \<^verbatim>\<open>user\<close> or registered with all its keys registered; \<open>stored_value\<close> is
  the value the second loop writes for one entry, \<open>None\<close> when decoding or the converter
  raises.
\<close>

definition is_validation_error :: "error \<Rightarrow> bool" where
  "is_validation_error e =
     (case e of
        MetaSectionNotDefined sec \<Rightarrow> True
      | MetaKeyNotDefined sec ck \<Rightarrow> True
      | _ \<Rightarrow> False)"

definition meta_valid :: "dclab \<Rightarrow> meta \<Rightarrow> bool" where
  "meta_valid dfn meta =
     list_all (\<lambda>(sec, kvs). sec = ''user'' \<or>
        (sec \<in> set (CFG_METADATA dfn) \<and> list_all (\<lambda>(ck, v). config_key_exists dfn sec ck) kvs))
       meta"

definition stored_value :: "dclab \<Rightarrow> string \<Rightarrow> string \<Rightarrow> mvalue \<Rightarrow> mvalue option" where
  "stored_value dfn sec ck v =
     (case decode_bytes v of
        None \<Rightarrow> None
      | Some val \<Rightarrow> if sec = ''user'' then Some val else get_config_value_func dfn sec ck val)"

text \<open>Inputs for the examples: a writer in append mode, a small registry, an empty container.\<close>

definition ex_writer :: writer where
  "ex_writer = \<lparr>mode = Append, compression = Some ''gzip'', h5_convert = (\<lambda>d x. x)\<rparr>"

definition ex_dfn :: dclab where
  "ex_dfn =
     \<lparr>feature_exists = (\<lambda>f. f \<in> set [''deform'', ''area_um'', ''contour'', ''image'',
         ''image_bg'', ''mask'', ''trace'']),
      scalar_feature_exists = (\<lambda>f. f \<in> set [''deform'', ''area_um'']),
      FLUOR_TRACES = [''fl1_median'', ''fl1_raw'', ''fl2_median'', ''fl2_raw'',
         ''fl3_median'', ''fl3_raw''],
      CFG_METADATA = [''experiment'', ''imaging'', ''setup''],
      config_key_exists = (\<lambda>sec ck. (sec, ck) \<in> set [(''experiment'', ''sample''),
         (''imaging'', ''flash duration''), (''setup'', ''chip region''),
         (''setup'', ''software version'')]),
      get_config_value_func = (\<lambda>sec ck v. Some v),
      version = ''0.33.1''\<rparr>"

definition ex_file :: h5file where
  "ex_file = \<lparr>attrs = Map.empty, root = Map.empty\<rparr>"

definition ex_floats :: "int list \<Rightarrow> array_like" where
  "ex_floats xs =
     Array \<lparr>nd_dtype = DOther ''float64'', nd_tshape = [],
            nd_rows = map (\<lambda>x. [IOther ''float64'' x]) xs\<rparr>"

definition ex_event :: "nat \<Rightarrow> array_like" where
  "ex_event n =
     Array \<lparr>nd_dtype = DUInt8, nd_tshape = [2], nd_rows = replicate n [IUInt8 0, IUInt8 1]\<rparr>"

definition ex_replacer :: writer where
  "ex_replacer = \<lparr>mode = Replace, compression = Some ''gzip'', h5_convert = (\<lambda>d x. x)\<rparr>"

definition ex_stored_deform :: dataset where
  "ex_stored_deform =
     \<lparr>ds_dtype = DOther ''float64'', ds_tshape = [],
      ds_rows = [[IOther ''float64'' 1], [IOther ''float64'' 2], [IOther ''float64'' 3]],
      ds_maxshape = [None], ds_chunks = Chunks [100], ds_fletcher32 = True,
      ds_compression = Some ''gzip'', ds_attrs = Map.empty\<rparr>"

definition ex_file_deform :: h5file where
  "ex_file_deform =
     \<lparr>attrs = Map.empty, root = [''events'' \<mapsto> Grp [''deform'' \<mapsto> DSet ex_stored_deform]]\<rparr>"

definition ex_file_branded :: h5file where
  "ex_file_branded =
     \<lparr>attrs = [''setup:software version'' \<mapsto> MStr (ustr ''0.1 | dclab 0.30.0'')],
      root = Map.empty\<rparr>"

definition ex_log :: group where
  "ex_log = outcome_state (write_text ex_writer Map.empty ''log'' (LineList [LStr (ustr ''start'')]))"

section \<open>The chunked write of write_ndarray\<close>

lemma write_blocks_snoc:
  "write_blocks w offset data (iis @ [ii]) dset =
     (case write_blocks w offset data iis dset of
        Raised e d \<Rightarrow> Raised e d
      | Done d \<Rightarrow> write_blocks w offset data [ii] d)"
  by (induction iis arbitrary: dset) (auto simp: Let_def split: sum.splits)

lemma h5_setslice_empty:
  "prod_list (ds_tshape ds) = 0 \<Longrightarrow> h5_setslice conv ds a b val = Inr ds"
  by (simp add: h5_setslice_def Let_def)

lemma h5_setslice_splice:
  assumes "0 < prod_list (ds_tshape ds)" "nd_tshape val = ds_tshape ds"
    and "0 < length (nd_rows val)" "a + length (nd_rows val) \<le> length (ds_rows ds)"
  shows "h5_setslice conv ds a (a + length (nd_rows val)) val =
     Inr (ds\<lparr>ds_rows := take a (ds_rows ds) @
            map (map (h5_store conv (ds_dtype ds))) (nd_rows val) @
            drop (a + length (nd_rows val)) (ds_rows ds)\<rparr>)"
  using assms by (simp add: h5_setslice_def Let_def min_def)

lemma h5_setslice_mismatch:
  assumes "0 < prod_list (ds_tshape ds)" "nd_tshape val \<noteq> ds_tshape ds"
    and "a < b" "b \<le> length (ds_rows ds)"
  shows "h5_setslice conv ds a b val = Inl EngineError"
  using assms by (simp add: h5_setslice_def Let_def min_def)

lemma write_blocks_noop:
  "prod_list (ds_tshape dset) = 0 \<Longrightarrow> write_blocks w offset data iis dset = Done dset"
  by (induction iis) (simp_all add: h5_setslice_empty Let_def)

lemma write_blocks_prefix:
  assumes "0 < prod_list (ds_tshape dset)" "nd_tshape data = ds_tshape dset"
    and "length (ds_rows dset) = offset + length (nd_rows data)"
    and "k * CHUNK_SIZE \<le> length (nd_rows data)"
  shows "write_blocks w offset data [0..<k] dset =
     Done (dset\<lparr>ds_rows := take offset (ds_rows dset) @
            map (map (h5_store (h5_convert w) (ds_dtype dset))) (take (k * CHUNK_SIZE) (nd_rows data)) @
            drop (offset + k * CHUNK_SIZE) (ds_rows dset)\<rparr>)"
  using assms(4)
proof (induction k)
  case 0
  then show ?case by simp
next
  case (Suc k)
  let ?c = CHUNK_SIZE
  let ?C = "map (map (h5_store (h5_convert w) (ds_dtype dset)))"
  let ?d = "dset\<lparr>ds_rows := take offset (ds_rows dset) @
            ?C (take (k * ?c) (nd_rows data)) @ drop (offset + k * ?c) (ds_rows dset)\<rparr>"
  let ?v = "nd_slice data (k * ?c) (k * ?c + ?c)"
  have kc: "k * ?c + ?c \<le> length (nd_rows data)" using Suc.prems by simp
  have pre: "write_blocks w offset data [0..<k] dset = Done ?d"
    using Suc.IH kc by simp
  have lv: "length (nd_rows ?v) = ?c" using kc by (simp add: nd_slice_def)
  have cpos: "0 < ?c" by (simp add: CHUNK_SIZE_def)
  have step: "h5_setslice (h5_convert w) ?d (offset + k * ?c) (offset + k * ?c + length (nd_rows ?v)) ?v =
     Inr (?d\<lparr>ds_rows := take (offset + k * ?c) (ds_rows ?d) @
            map (map (h5_store (h5_convert w) (ds_dtype ?d))) (nd_rows ?v) @
            drop (offset + k * ?c + length (nd_rows ?v)) (ds_rows ?d)\<rparr>)"
    apply (rule h5_setslice_splice)
    using assms(1,2,3) kc cpos lv by (simp_all add: nd_slice_def)
  have rows: "take (offset + k * ?c) (ds_rows ?d) @ ?C (nd_rows ?v) @
            drop (offset + k * ?c + ?c) (ds_rows ?d) =
        take offset (ds_rows dset) @ ?C (take (Suc k * ?c) (nd_rows data)) @
            drop (offset + Suc k * ?c) (ds_rows dset)"
  proof -
    have t: "take (Suc k * ?c) (nd_rows data) =
        take (k * ?c) (nd_rows data) @ take ?c (drop (k * ?c) (nd_rows data))"
      using take_add [of "k * ?c" ?c "nd_rows data"] by (simp add: add.commute)
    have l: "length (take offset (ds_rows dset) @ ?C (take (k * ?c) (nd_rows data))) = offset + k * ?c"
      using assms(3) kc by simp
    show ?thesis
      using assms(3) kc unfolding t
      by (simp add: nd_slice_def min_def add.commute add.left_commute)
  qed
  show ?case
    using pre step rows lv
    by (simp add: write_blocks_snoc Let_def add.assoc)
qed

lemma write_blocks_first_mismatch:
  assumes "0 < prod_list (ds_tshape dset)" "nd_tshape data \<noteq> ds_tshape dset"
    and "length (ds_rows dset) = offset + length (nd_rows data)"
    and "0 < k" "k * CHUNK_SIZE \<le> length (nd_rows data)"
  shows "write_blocks w offset data [0..<k] dset = Raised EngineError dset"
proof -
  have "[0..<k] = 0 # [1..<k]" using assms(4) by (simp add: upt_conv_Cons)
  moreover have "CHUNK_SIZE \<le> length (nd_rows data)"
    using assms(4,5) by (cases k) simp_all
  then have "h5_setslice (h5_convert w) dset offset (offset + CHUNK_SIZE)
      (nd_slice data 0 CHUNK_SIZE) = Inl EngineError"
    using assms(1,2,3)
    by (intro h5_setslice_mismatch) (simp_all add: nd_slice_def CHUNK_SIZE_def)
  ultimately show ?thesis by (simp add: Let_def)
qed

lemma populate_chunked_eq_bulk:
  assumes len: "length (ds_rows dset) = offset + length (nd_rows data)"
  shows "populate_chunked w offset data dset = populate_bulk w offset data dset"
proof -
  let ?c = CHUNK_SIZE
  let ?N = "length (nd_rows data)"
  let ?q = "?N div ?c" and ?r = "?N mod ?c"
  have cpos: "0 < ?c" by (simp add: CHUNK_SIZE_def)
  have qc: "?q * ?c \<le> ?N" by simp
  have N: "?q * ?c + ?r = ?N" by simp
  show ?thesis
  proof (cases "prod_list (ds_tshape dset) = 0")
    case True
    then show ?thesis
      by (simp add: populate_chunked_def populate_bulk_def write_remainder_def
          write_blocks_noop h5_setslice_empty Let_def)
  next
    case P: False
    show ?thesis
    proof (cases "?N = 0")
      case True
      then show ?thesis using len
        by (simp add: populate_chunked_def populate_bulk_def write_remainder_def
            h5_setslice_def Let_def)
    next
      case Npos: False
      show ?thesis
      proof (cases "nd_tshape data = ds_tshape dset")
        case False
        have bulk: "populate_bulk w offset data dset = Raised EngineError dset"
          using P False Npos len
          by (simp add: populate_bulk_def h5_setslice_mismatch)
        show ?thesis
        proof (cases "?q = 0")
          case True
          then have r: "?r = ?N" using N by simp
          have "h5_setslice (h5_convert w) dset (offset + ?q * ?c) (offset + (?q * ?c + ?r))
             (nd_slice data (?q * ?c) (?q * ?c + ?r)) = Inl EngineError"
            using P False Npos len True r
            by (intro h5_setslice_mismatch) (simp_all add: nd_slice_def)
          then show ?thesis using True r Npos bulk
            by (simp add: populate_chunked_def write_remainder_def Let_def)
        next
          case q: False
          then show ?thesis using bulk P False len qc
            by (simp add: populate_chunked_def write_blocks_first_mismatch)
        qed
      next
        case T: True
        let ?C = "map (map (h5_store (h5_convert w) (ds_dtype dset)))"
        let ?d = "dset\<lparr>ds_rows := take offset (ds_rows dset) @
            ?C (take (?q * ?c) (nd_rows data)) @ drop (offset + ?q * ?c) (ds_rows dset)\<rparr>"
        have blocks: "write_blocks w offset data [0..<?q] dset = Done ?d"
          using P T len qc by (simp add: write_blocks_prefix)
        have bulk: "populate_bulk w offset data dset =
           Done (dset\<lparr>ds_rows := take offset (ds_rows dset) @ ?C (nd_rows data)\<rparr>)"
          using h5_setslice_splice [of dset data offset "h5_convert w"] P T Npos len
          by (simp add: populate_bulk_def)
        show ?thesis
        proof (cases "?r = 0")
          case True
          then have "?q * ?c = ?N" using N by simp
          then show ?thesis using blocks bulk True len
            by (simp add: populate_chunked_def write_remainder_def Let_def)
        next
          case r: False
          let ?v = "nd_slice data (?q * ?c) (?q * ?c + ?r)"
          let ?X = "take (offset + ?q * ?c) (ds_rows ?d) @ ?C (nd_rows ?v) @
                drop (offset + (?q * ?c + ?r)) (ds_rows ?d)"
          have lv: "length (nd_rows ?v) = ?r" by (simp add: nd_slice_def minus_div_mult_eq_mod)
          have step: "h5_setslice (h5_convert w) ?d (offset + ?q * ?c) (offset + (?q * ?c + ?r)) ?v =
             Inr (?d\<lparr>ds_rows := ?X\<rparr>)"
            using h5_setslice_splice [of ?d ?v "offset + ?q * ?c" "h5_convert w"] P T len r lv N
            by (simp add: nd_slice_def add.assoc)
          have rem: "write_remainder w offset data ?d = Done (?d\<lparr>ds_rows := ?X\<rparr>)"
            unfolding write_remainder_def Let_def using r by (simp only: step if_True sum.case not_False_eq_True simp_thms)
          have rows: "?X = take offset (ds_rows dset) @ ?C (nd_rows data)"
          proof -
            have "nd_rows data = take (?q * ?c) (nd_rows data) @ drop (?q * ?c) (nd_rows data)"
              by simp
            then have "?C (nd_rows data) = ?C (take (?q * ?c) (nd_rows data)) @
                ?C (drop (?q * ?c) (nd_rows data))"
              by (metis map_append)
            moreover have "take ?r (drop (?q * ?c) (nd_rows data)) = drop (?q * ?c) (nd_rows data)"
              by (simp add: minus_div_mult_eq_mod)
            ultimately show ?thesis using len qc
              by (simp add: nd_slice_def min_def)
          qed
          have "populate_chunked w offset data dset = Done (?d\<lparr>ds_rows := ?X\<rparr>)"
            unfolding populate_chunked_def by (simp only: blocks rem outcome.case)
          also have "?d\<lparr>ds_rows := ?X\<rparr> =
              dset\<lparr>ds_rows := take offset (ds_rows dset) @ ?C (nd_rows data)\<rparr>"
            by (subst rows) simp
          finally show ?thesis using bulk by simp
        qed
      qed
    qed
  qed
qed

lemma open_dataset_length:
  "open_dataset w grp name data dt = Inr (dset, offset) \<Longrightarrow>
   length (ds_rows dset) = offset + length (nd_rows data)"
  by (auto simp: open_dataset_def h5_create_dataset_def h5_resize_def shape_def Let_def
      split: if_splits sum.splits option.splits node.splits list.splits)



section \<open>Appending to an event-indexed array\<close>

lemma h5_store_same: "dtype_of x = d \<Longrightarrow> h5_store conv d x = x"
  by (cases x) (auto simp: h5_store_def fixed_width_def split: dtype.splits)

lemma map_store_well_typed:
  "well_typed a \<Longrightarrow> map (map (h5_store conv (nd_dtype a))) (nd_rows a) = nd_rows a"
  by (simp add: well_typed_def list_all_iff map_idI h5_store_same)

lemma write_ndarray_as_bulk:
  "write_ndarray w grp name data dt = write_ndarray_bulk w grp name data dt"
  by (auto simp: write_ndarray_def write_ndarray_bulk_def
      populate_chunked_eq_bulk [OF open_dataset_length] split: sum.splits)

lemma fits_maxshape_unlimited:
  "fits_maxshape (n # ts) (None # map Some ts)"
  by (simp add: fits_maxshape_def list_all2_map2 list_all2_same)

lemma prod_list_pos: "list_all (\<lambda>k. 0 < k) (ts :: nat list) \<Longrightarrow> 0 < prod_list ts"
  by (induction ts) simp_all

lemma write_ndarray_create:
  assumes "name \<notin> dom grp" "well_typed a" "list_all (\<lambda>k. 0 < k) (nd_tshape a)"
  shows "write_ndarray w grp name a None =
     Done (grp(name \<mapsto> DSet \<lparr>ds_dtype = nd_dtype a, ds_tshape = nd_tshape a,
        ds_rows = nd_rows a, ds_maxshape = None # map Some (nd_tshape a),
        ds_chunks = Chunks (CHUNK_SIZE # nd_tshape a), ds_fletcher32 = True,
        ds_compression = compression w, ds_attrs = Map.empty\<rparr>))"
proof -
  let ?ds = "\<lparr>ds_dtype = nd_dtype a, ds_tshape = nd_tshape a,
        ds_rows = replicate (length (nd_rows a)) (replicate (prod_list (nd_tshape a)) (fill_item (nd_dtype a))),
        ds_maxshape = None # map Some (nd_tshape a),
        ds_chunks = Chunks (CHUNK_SIZE # nd_tshape a), ds_fletcher32 = True,
        ds_compression = compression w, ds_attrs = Map.empty\<rparr>"
  have op: "open_dataset w grp name a None = Inr (?ds, 0)"
    using assms(1,3)
    by (simp add: open_dataset_def h5_create_dataset_def shape_def fits_maxshape_unlimited
        valid_chunks_def CHUNK_SIZE_def)
  have P: "0 < prod_list (nd_tshape a)" using assms(3) by (rule prod_list_pos)
  have "populate_bulk w 0 a ?ds = Done (?ds\<lparr>ds_rows := nd_rows a\<rparr>)"
  proof (cases "nd_rows a = []")
    case True
    then show ?thesis by (simp add: populate_bulk_def h5_setslice_def)
  next
    case False
    then show ?thesis using P map_store_well_typed [OF assms(2)]
      by (simp add: populate_bulk_def h5_setslice_def)
  qed
  then show ?thesis using op
    by (simp add: write_ndarray_as_bulk write_ndarray_bulk_def)
qed


lemma require_events:
  "feature_absent file feat \<Longrightarrow>
   \<exists>ev. require_group (root file) ''events'' = Inr ev \<and> feat \<notin> dom ev"
  by (auto simp: feature_absent_def require_group_def split: option.splits node.splits)



section \<open>The width of a text dataset\<close>

lemma encode_lines_those:
  "encode_lines ls m acc =
     (case encode_all ls of
        None \<Rightarrow> None
      | Some bs \<Rightarrow> Some (Max (set (m # map length bs)), acc @ bs))"
proof (induction ls arbitrary: m acc)
  case Nil
  then show ?case by simp
next
  case (Cons l ls)
  show ?case
  proof (cases "line_bytes l")
    case None
    then show ?thesis by simp
  next
    case (Some b)
    show ?thesis
    proof (cases "encode_all ls")
      case None
      then show ?thesis using Some Cons.IH by simp
    next
      case bs: (Some bs)
      have "Max (set (max m (length b) # map length bs)) = Max (set (m # length b # map length bs))"
        by (cases "set bs = {}") (simp_all add: max.assoc)
      then show ?thesis using Some bs Cons.IH by simp
    qed
  qed
qed

lemma encode_all_length: "encode_all ls = Some bs \<Longrightarrow> length ls = length bs"
  by (induction ls arbitrary: bs) (auto split: option.splits)

lemma write_lines_records:
  assumes "ds_dtype ds = DBytes wd" "ds_tshape ds = []" "i + length bs \<le> length (ds_rows ds)"
  shows "write_lines w ds i bs =
     Done (ds\<lparr>ds_rows := take i (ds_rows ds) @ map (\<lambda>b. [IBytes (fixed_width wd b)]) bs @
        drop (i + length bs) (ds_rows ds)\<rparr>)"
  using assms
proof (induction bs arbitrary: ds i)
  case Nil
  then show ?case by simp
next
  case (Cons b bs)
  let ?ds = "ds\<lparr>ds_rows := (ds_rows ds)[i := [IBytes (fixed_width wd b)]]\<rparr>"
  have st: "h5_setitem (h5_convert w) ds i (IBytes b) = Inr ?ds"
    using Cons.prems by (simp add: h5_setitem_def h5_store_def)
  have "write_lines w ?ds (Suc i) bs =
     Done (?ds\<lparr>ds_rows := take (Suc i) (ds_rows ?ds) @ map (\<lambda>b. [IBytes (fixed_width wd b)]) bs @
        drop (Suc i + length bs) (ds_rows ?ds)\<rparr>)"
    using Cons.prems by (intro Cons.IH) simp_all
  moreover have "take (Suc i) (ds_rows ?ds) = take i (ds_rows ds) @ [[IBytes (fixed_width wd b)]]"
    using Cons.prems by (simp add: take_Suc_conv_app_nth)
  ultimately show ?case using st by simp
qed

lemma write_text_create:
  assumes "name \<notin> dom g" "call_bytes c = Some bs"
  shows "write_text w g name c =
     Done (g(name \<mapsto> DSet \<lparr>ds_dtype = DBytes (claimed_width bs), ds_tshape = [],
        ds_rows = map (\<lambda>b. [IBytes (fixed_width (claimed_width bs) b)]) bs,
        ds_maxshape = [None], ds_chunks = AutoChunks, ds_fletcher32 = True,
        ds_compression = compression w, ds_attrs = Map.empty\<rparr>))"
proof -
  let ?W = "claimed_width bs"
  let ?ds = "\<lparr>ds_dtype = DBytes ?W, ds_tshape = [],
        ds_rows = replicate (length bs) [IBytes (replicate ?W 0)],
        ds_maxshape = [None], ds_chunks = AutoChunks, ds_fletcher32 = True,
        ds_compression = compression w, ds_attrs = Map.empty\<rparr>"
  have len: "length (as_line_list c) = length bs"
    using assms(2) by (simp add: call_bytes_def encode_all_length)
  have enc: "encode_lines (as_line_list c) 100 [] = Some (?W, bs)"
    using assms(2) by (simp add: encode_lines_those call_bytes_def claimed_width_def)
  have op: "open_text_dataset w g name (length bs) ?W = Inr (?ds, 0)"
    using assms(1)
    by (simp add: open_text_dataset_def h5_create_dataset_def fits_maxshape_def valid_chunks_def)
  have "write_lines w ?ds 0 bs =
     Done (?ds\<lparr>ds_rows := take 0 (ds_rows ?ds) @ map (\<lambda>b. [IBytes (fixed_width ?W b)]) bs @
        drop (0 + length bs) (ds_rows ?ds)\<rparr>)"
    by (rule write_lines_records) simp_all
  then show ?thesis using assms(1) enc op len
    by (simp add: write_text_def)
qed

lemma write_text_append:
  assumes "g name = Some (DSet ds)" "mode w \<noteq> Replace"
    and "ds_dtype ds = DBytes wd" "ds_tshape ds = []" "ds_maxshape ds = None # ms"
    and "call_bytes c = Some bs"
  shows "write_text w g name c =
     Done (g(name \<mapsto> DSet (ds\<lparr>ds_rows := ds_rows ds @
        map (\<lambda>b. [IBytes (fixed_width wd b)]) bs\<rparr>)))"
proof -
  let ?n = "length (ds_rows ds)"
  let ?ds = "ds\<lparr>ds_rows := ds_rows ds @ replicate (length bs) [IBytes (replicate wd 0)]\<rparr>"
  have len: "length (as_line_list c) = length bs"
    using assms(6) by (simp add: call_bytes_def encode_all_length)
  have enc: "encode_lines (as_line_list c) 100 [] = Some (claimed_width bs, bs)"
    using assms(6) by (simp add: encode_lines_those call_bytes_def claimed_width_def)
  have op: "open_text_dataset w g name (length bs) (claimed_width bs) = Inr (?ds, ?n)"
    using assms(1,3,4,5)
    by (simp add: open_text_dataset_def h5_resize_def dom_def Let_def)
  have "write_lines w ?ds ?n bs =
     Done (?ds\<lparr>ds_rows := take ?n (ds_rows ?ds) @ map (\<lambda>b. [IBytes (fixed_width wd b)]) bs @
        drop (?n + length bs) (ds_rows ?ds)\<rparr>)"
    using assms(3,4) by (intro write_lines_records) simp_all
  then show ?thesis using assms(1,2) enc op len
    by (simp add: write_text_def dom_def)
qed

lemma write_text_calls_append:
  assumes "g name = Some (DSet ds)" "mode w \<noteq> Replace"
    and "ds_dtype ds = DBytes wd" "ds_tshape ds = []" "ds_maxshape ds = None # ms"
    and "encode_calls cs = Some bs"
  shows "write_text_calls w g name cs =
     Done (g(name \<mapsto> DSet (ds\<lparr>ds_rows := ds_rows ds @
        map (\<lambda>b. [IBytes (fixed_width wd b)]) bs\<rparr>)))"
  using assms
proof (induction cs arbitrary: g ds bs)
  case Nil
  then show ?case by (simp add: fun_upd_idem)
next
  case (Cons c cs)
  from Cons.prems(6) obtain b1 b2 where b: "call_bytes c = Some b1" "encode_calls cs = Some b2"
    "bs = b1 @ b2"
    by (auto split: option.splits)
  let ?ds1 = "ds\<lparr>ds_rows := ds_rows ds @ map (\<lambda>b. [IBytes (fixed_width wd b)]) b1\<rparr>"
  let ?g1 = "g(name \<mapsto> DSet ?ds1)"
  have s1: "write_text w g name c = Done ?g1"
    using Cons.prems(1-5) b(1) by (rule write_text_append)
  let ?ds2 = "?ds1\<lparr>ds_rows := ds_rows ?ds1 @ map (\<lambda>b. [IBytes (fixed_width wd b)]) b2\<rparr>"
  have s2: "write_text_calls w ?g1 name cs = Done (?g1(name \<mapsto> DSet ?ds2))"
    using Cons.prems(2-5) b(2) by (intro Cons.IH) simp_all
  have eq: "?g1(name \<mapsto> DSet ?ds2) =
      g(name \<mapsto> DSet (ds\<lparr>ds_rows := ds_rows ds @ map (\<lambda>b. [IBytes (fixed_width wd b)]) bs\<rparr>))"
    using b(3) by simp
  show ?case by (simp only: write_text_calls.simps s1 outcome.case s2 eq)
qed

lemma fixed_width_whole:
  "length b \<le> wd \<Longrightarrow> take (length b) (fixed_width wd b) = b"
  by (simp add: fixed_width_def)

lemma claimed_width_ge: "b \<in> set bs \<Longrightarrow> length b \<le> claimed_width bs"
  by (simp add: claimed_width_def)

lemma record_bytes_map:
  "map record_bytes (map (\<lambda>b. [IBytes (f b)]) bs) = map f bs"
  by (simp add: record_bytes_def)

text \<open>
  C3, as amended. For a session of \<^verbatim>\<open>write_text\<close> calls on a name that is not yet in
  the group, outside replace mode, every call returns; the width of the stored array is
  the larger of 100 and the longest byte length among the lines of the first call, the
  one that creates the array, and the later calls do not change it. Every line is
  stored cut or padded to that width: no line of the creating call is cut, and a line
  no longer than the width is stored whole.
\<close>

theorem text_width_fixed_by_creating_call:
  assumes "name \<notin> dom g" "mode w \<noteq> Replace"
    and "call_bytes c = Some bs1" "encode_calls cs = Some bs2"
  shows "\<exists>g'. write_text_calls w g name (c # cs) = Done g' \<and>
     text_width g' name = Some (claimed_width bs1) \<and>
     text_records g' name = map (fixed_width (claimed_width bs1)) (bs1 @ bs2) \<and>
     list_all (\<lambda>b. length b \<le> claimed_width bs1) bs1 \<and>
     list_all (\<lambda>b. length b \<le> claimed_width bs1 \<longrightarrow>
        take (length b) (fixed_width (claimed_width bs1) b) = b) (bs1 @ bs2)"
proof -
  let ?W = "claimed_width bs1"
  let ?ds1 = "\<lparr>ds_dtype = DBytes ?W, ds_tshape = [],
        ds_rows = map (\<lambda>b. [IBytes (fixed_width ?W b)]) bs1,
        ds_maxshape = [None], ds_chunks = AutoChunks, ds_fletcher32 = True,
        ds_compression = compression w, ds_attrs = Map.empty\<rparr>"
  let ?g1 = "g(name \<mapsto> DSet ?ds1)"
  let ?ds2 = "?ds1\<lparr>ds_rows := ds_rows ?ds1 @ map (\<lambda>b. [IBytes (fixed_width ?W b)]) bs2\<rparr>"
  have s1: "write_text w g name c = Done ?g1"
    using assms(1,3) by (rule write_text_create)
  have s2: "write_text_calls w ?g1 name cs = Done (?g1(name \<mapsto> DSet ?ds2))"
    using assms(2,4) by (intro write_text_calls_append [where ms = "[]"]) simp_all
  have "write_text_calls w g name (c # cs) = Done (?g1(name \<mapsto> DSet ?ds2))"
    using s1 s2 by simp
  moreover have "text_width (?g1(name \<mapsto> DSet ?ds2)) name = Some ?W"
    by (simp add: text_width_def)
  moreover have "text_records (?g1(name \<mapsto> DSet ?ds2)) name = map (fixed_width ?W) (bs1 @ bs2)"
    by (simp add: text_records_def record_bytes_def)
  moreover have "list_all (\<lambda>b. length b \<le> ?W) bs1"
    by (simp add: list_all_iff claimed_width_ge)
  moreover have "list_all (\<lambda>b. length b \<le> ?W \<longrightarrow> take (length b) (fixed_width ?W b) = b) (bs1 @ bs2)"
    by (simp add: list_all_iff fixed_width_whole)
  ultimately show ?thesis by blast
qed

theorem text_width_fixed_by_creating_call_witness:
  "''log'' \<notin> dom (Map.empty :: group) \<and> mode ex_writer \<noteq> Replace \<and>
   call_bytes (LineList [LStr (ustr ''ab''), LBytes [99]]) = Some [[97, 98], [99]] \<and>
   encode_calls [OneStr (ustr ''d'')] = Some [[100]] \<and>
   (\<exists>g'. write_text_calls ex_writer Map.empty ''log''
            [LineList [LStr (ustr ''ab''), LBytes [99]], OneStr (ustr ''d'')] = Done g' \<and>
      text_width g' ''log'' = Some 100 \<and>
      text_records g' ''log'' = map (fixed_width 100) [[97, 98], [99], [100]])"
proof -
  have h: "''log'' \<notin> dom (Map.empty :: group)" "mode ex_writer \<noteq> Replace"
    "call_bytes (LineList [LStr (ustr ''ab''), LBytes [99]]) = Some [[97, 98], [99]]"
    "encode_calls [OneStr (ustr ''d'')] = Some [[100]]"
    by (simp_all add: ex_writer_def call_bytes_def as_line_list_def line_bytes_def ustr_def
        utf8_encode_cp_def)
  have w: "claimed_width [[97, 98], [99]] = 100" by (simp add: claimed_width_def)
  show ?thesis
    using text_width_fixed_by_creating_call [OF h] h unfolding w by auto
qed

text \<open>
  C3 as it is stated fails: a first call creates the log with width 100, the second
  writes a line of 101 bytes. The session returns, the width is still 100 and not 101,
  the larger of 100 and the longest line of the session, and the stored record is the
  first 100 bytes of the line.
\<close>

theorem text_width_session_counterexample:
  "succeeded (write_text_calls ex_writer Map.empty ''log''
      [LineList [LStr (ustr ''a'')], OneBytes (replicate 101 65)]) \<and>
   text_width (outcome_state (write_text_calls ex_writer Map.empty ''log''
      [LineList [LStr (ustr ''a'')], OneBytes (replicate 101 65)])) ''log'' = Some 100 \<and>
   claimed_width [[97], replicate 101 65] = 101 \<and>
   text_records (outcome_state (write_text_calls ex_writer Map.empty ''log''
      [LineList [LStr (ustr ''a'')], OneBytes (replicate 101 65)])) ''log'' =
     [97 # replicate 99 0, replicate 100 65]"
proof -
  have "succeeded (write_text_calls ex_writer Map.empty ''log''
      [LineList [LStr (ustr ''a'')], OneBytes (replicate 101 65)])"
    by code_simp
  moreover have "text_width (outcome_state (write_text_calls ex_writer Map.empty ''log''
      [LineList [LStr (ustr ''a'')], OneBytes (replicate 101 65)])) ''log'' = Some 100"
    by code_simp
  moreover have "claimed_width [[97], replicate 101 65] = 101"
    by (simp add: claimed_width_def)
  moreover have "text_records (outcome_state (write_text_calls ex_writer Map.empty ''log''
      [LineList [LStr (ustr ''a'')], OneBytes (replicate 101 65)])) ''log'' =
     [97 # replicate 99 0, replicate 100 65]"
    by code_simp
  ultimately show ?thesis by blast
qed

section \<open>The names of ragged entries\<close>

lemma digit10_inj: "n < 10 \<Longrightarrow> m < 10 \<Longrightarrow> digit10 n = digit10 m \<Longrightarrow> n = m"
proof -
  assume a: "n < 10" "m < 10" "digit10 n = digit10 m"
  have d: "distinct ''0123456789''" by simp
  show ?thesis using a nth_eq_iff_index_eq [OF d, of n m] by (simp add: digit10_def)
qed

lemma str_nat_nonempty: "str_nat n \<noteq> []"
  by (subst str_nat.simps) simp

lemma str_nat_inj: "str_nat n = str_nat m \<Longrightarrow> n = m"
proof (induction n arbitrary: m rule: str_nat.induct)
  case (1 n)
  show ?case
  proof (cases "n < 10")
    case n: True
    show ?thesis
    proof (cases "m < 10")
      case True
      then show ?thesis using n "1.prems" digit10_inj
        by (subst (asm) str_nat.simps, subst (asm) (2) str_nat.simps) simp_all
    next
      case False
      have "str_nat m = str_nat (m div 10) @ [digit10 (m mod 10)]"
        using False by (subst str_nat.simps) simp
      moreover have "str_nat n = [digit10 n]" using n by (subst str_nat.simps) simp
      ultimately show ?thesis using "1.prems" str_nat_nonempty [of "m div 10"] by simp
    qed
  next
    case n: False
    have sn: "str_nat n = str_nat (n div 10) @ [digit10 (n mod 10)]"
      using n by (subst str_nat.simps) simp
    show ?thesis
    proof (cases "m < 10")
      case True
      then have "str_nat m = [digit10 m]" by (subst str_nat.simps) simp
      then show ?thesis using sn "1.prems" str_nat_nonempty [of "n div 10"] by simp
    next
      case False
      have sm: "str_nat m = str_nat (m div 10) @ [digit10 (m mod 10)]"
        using False by (subst str_nat.simps) simp
      from sn sm "1.prems" have e: "str_nat (n div 10) = str_nat (m div 10)"
        "digit10 (n mod 10) = digit10 (m mod 10)" by simp_all
      have "n div 10 = m div 10" using "1.IH" [OF n e(1)] .
      moreover have "n mod 10 = m mod 10" using e(2) by (intro digit10_inj) simp_all
      ultimately show ?thesis by (metis div_mult_mod_eq)
    qed
  qed
qed

lemma entry_names_Suc: "entry_names (Suc k) = insert (str_nat k) (entry_names k)"
  by (auto simp: entry_names_def)

lemma str_nat_notin: "str_nat k \<notin> entry_names k"
  by (auto simp: entry_names_def dest: str_nat_inj)

lemma card_entry_names: "card (entry_names k) = k"
proof -
  have "distinct (map str_nat [0..<k])"
    by (simp add: distinct_map inj_on_def) (blast dest: str_nat_inj)
  then have "card (set (map str_nat [0..<k])) = length (map str_nat [0..<k])"
    by (rule distinct_card)
  then show ?thesis by (simp add: entry_names_def)
qed

lemma create_from_data_valid:
  "name \<notin> dom g \<Longrightarrow> valid_event cc \<Longrightarrow> \<exists>ds. create_from_data w g name cc = Inr ds"
  by (cases cc)
    (auto simp: create_from_data_def valid_event_def h5_create_dataset_def shape_def
      fits_maxshape_def valid_chunks_def list_all2_map2 list_all2_same)

lemma create_entries_dense:
  assumes "dom g = entry_names i"
  shows "\<exists>j. dom (outcome_state (create_entries w i ccs g)) = entry_names j \<and> i \<le> j \<and>
     (succeeded (create_entries w i ccs g) \<longrightarrow> j = i + length ccs) \<and>
     (list_all valid_event ccs \<longrightarrow> succeeded (create_entries w i ccs g))"
  using assms
proof (induction ccs arbitrary: i g)
  case Nil
  then show ?case by auto
next
  case (Cons cc ccs)
  have fresh: "str_nat i \<notin> dom g" using Cons.prems by (simp add: str_nat_notin)
  show ?case
  proof (cases "create_from_data w g (str_nat i) cc")
    case (Inl e)
    moreover have "\<not> valid_event cc"
      using create_from_data_valid [OF fresh, of cc w] Inl by auto
    ultimately show ?thesis using Cons.prems by (intro exI [of _ i]) simp
  next
    case (Inr ds)
    let ?g = "g(str_nat i \<mapsto> DSet ds)"
    have "dom ?g = entry_names (Suc i)" using Cons.prems by (simp add: entry_names_Suc)
    from Cons.IH [OF this] obtain j where
      j: "dom (outcome_state (create_entries w (Suc i) ccs ?g)) = entry_names j" "Suc i \<le> j"
        "succeeded (create_entries w (Suc i) ccs ?g) \<longrightarrow> j = Suc i + length ccs"
        "list_all valid_event ccs \<longrightarrow> succeeded (create_entries w (Suc i) ccs ?g)"
      by blast
    then show ?thesis using Inr by (intro exI [of _ j]) simp
  qed
qed

lemma require_group_entries:
  assumes "\<not> is_dataset (pg name)" "ragged_entries pg name = entry_names k0"
  shows "\<exists>grp. require_group pg name = Inr grp \<and> dom grp = entry_names k0"
  using assms
  by (auto simp: require_group_def is_dataset_def ragged_entries_def
      split: option.splits node.splits)

lemma write_ragged_dense:
  assumes "\<not> is_dataset (pg name)" "ragged_entries pg name = entry_names k0"
  shows "\<exists>k. \<not> is_dataset (outcome_state (write_ragged w pg name data) name) \<and>
     ragged_entries (outcome_state (write_ragged w pg name data)) name = entry_names k \<and>
     k0 \<le> k \<and>
     (succeeded (write_ragged w pg name data) \<longrightarrow> k = k0 + event_count data) \<and>
     (valid_call data \<longrightarrow> succeeded (write_ragged w pg name data))"
proof -
  obtain grp where grp: "require_group pg name = Inr grp" "dom grp = entry_names k0"
    using require_group_entries [OF assms] by blast
  have curid: "card (dom grp) = k0" using grp(2) by (simp add: card_entry_names)
  have st: "\<And>r. \<not> is_dataset (outcome_state (map_outcome (\<lambda>g. pg(name \<mapsto> Grp g)) r) name) \<and>
      ragged_entries (outcome_state (map_outcome (\<lambda>g. pg(name \<mapsto> Grp g)) r)) name =
        dom (outcome_state r) \<and>
      succeeded (map_outcome (\<lambda>g. pg(name \<mapsto> Grp g)) r) = succeeded r"
    subgoal for r by (cases r) (simp_all add: is_dataset_def ragged_entries_def)
    done
  show ?thesis
  proof (cases data)
    case (ArrayData cc)
    from create_entries_dense [OF grp(2), of w "[cc]"] obtain j where
      "dom (outcome_state (create_entries w k0 [cc] grp)) = entry_names j" "k0 \<le> j"
      "succeeded (create_entries w k0 [cc] grp) \<longrightarrow> j = k0 + length [cc]"
      "list_all valid_event [cc] \<longrightarrow> succeeded (create_entries w k0 [cc] grp)"
      by blast
    then show ?thesis using ArrayData grp(1) curid st [of "create_entries w k0 [cc] grp"]
      by (intro exI [of _ j]) (simp add: write_ragged_def event_count_def valid_call_def)
  next
    case (ListData ccs)
    from create_entries_dense [OF grp(2), of w ccs] obtain j where
      "dom (outcome_state (create_entries w k0 ccs grp)) = entry_names j" "k0 \<le> j"
      "succeeded (create_entries w k0 ccs grp) \<longrightarrow> j = k0 + length ccs"
      "list_all valid_event ccs \<longrightarrow> succeeded (create_entries w k0 ccs grp)"
      by blast
    then show ?thesis using ListData grp(1) curid st [of "create_entries w k0 ccs grp"]
      by (intro exI [of _ j]) (simp add: write_ragged_def event_count_def valid_call_def)
  next
    case (DictData d)
    then show ?thesis using grp
      by (intro exI [of _ k0])
        (simp add: write_ragged_def valid_call_def is_dataset_def ragged_entries_def)
  qed
qed

text \<open>
  C4. For every sequence of \<^verbatim>\<open>write_ragged\<close> calls on one name, where the name is no
  dataset and the group, if it is there, holds entries named \<^verbatim>\<open>"0"\<close>, ..., \<^verbatim>\<open>"k0-1"\<close>:
  in the state the sequence leaves, the entries are named \<^verbatim>\<open>"0"\<close>, ..., \<^verbatim>\<open>"k-1"\<close> with no
  gap; when every call returned, k is k0 plus the number of events of the calls; and
  every call returns when all events can be stored. The sequence is any sequence, so
  this holds after each call.
\<close>

theorem ragged_entries_dense:
  assumes "\<not> is_dataset (pg name)" "ragged_entries pg name = entry_names k0"
  shows "\<exists>k. ragged_entries (outcome_state (write_ragged_calls w pg name calls)) name =
       entry_names k \<and> k0 \<le> k \<and>
     (succeeded (write_ragged_calls w pg name calls) \<longrightarrow>
        k = k0 + sum_list (map event_count calls)) \<and>
     (list_all valid_call calls \<longrightarrow> succeeded (write_ragged_calls w pg name calls))"
  using assms
proof (induction calls arbitrary: pg k0)
  case Nil
  then show ?case by (intro exI [of _ k0]) simp
next
  case (Cons data rest)
  from write_ragged_dense [OF Cons.prems, of w data] obtain k1 where
    k1: "\<not> is_dataset (outcome_state (write_ragged w pg name data) name)"
      "ragged_entries (outcome_state (write_ragged w pg name data)) name = entry_names k1"
      "k0 \<le> k1"
      "succeeded (write_ragged w pg name data) \<longrightarrow> k1 = k0 + event_count data"
      "valid_call data \<longrightarrow> succeeded (write_ragged w pg name data)"
    by blast
  show ?case
  proof (cases "write_ragged w pg name data")
    case (Raised e pg')
    then show ?thesis using k1 by (intro exI [of _ k1]) simp
  next
    case (Done pg')
    from Cons.IH [of pg' k1] k1 Done obtain k where
      k: "ragged_entries (outcome_state (write_ragged_calls w pg' name rest)) name = entry_names k"
        "k1 \<le> k"
        "succeeded (write_ragged_calls w pg' name rest) \<longrightarrow> k = k1 + sum_list (map event_count rest)"
        "list_all valid_call rest \<longrightarrow> succeeded (write_ragged_calls w pg' name rest)"
      by auto
    then show ?thesis using k1 Done by (intro exI [of _ k]) auto
  qed
qed

theorem ragged_entries_dense_witness:
  "\<not> is_dataset ((Map.empty :: group) ''contour'') \<and>
   ragged_entries Map.empty ''contour'' = entry_names 0 \<and>
   list_all valid_call [ListData [ex_event 3, ex_event 7, ex_event 1], ListData [ex_event 5]] \<and>
   succeeded (write_ragged_calls ex_writer Map.empty ''contour''
      [ListData [ex_event 3, ex_event 7, ex_event 1], ListData [ex_event 5]]) \<and>
   ragged_entries (outcome_state (write_ragged_calls ex_writer Map.empty ''contour''
      [ListData [ex_event 3, ex_event 7, ex_event 1], ListData [ex_event 5]])) ''contour'' =
     {''0'', ''1'', ''2'', ''3''}"
proof -
  let ?calls = "[ListData [ex_event 3, ex_event 7, ex_event 1], ListData [ex_event 5]]"
  have h: "\<not> is_dataset ((Map.empty :: group) ''contour'')"
    "ragged_entries Map.empty ''contour'' = entry_names 0"
    by (simp_all add: is_dataset_def ragged_entries_def entry_names_def)
  have v: "list_all valid_call ?calls"
    by (simp add: valid_call_def valid_event_def ex_event_def shape_def)
  have n: "0 + sum_list (map event_count ?calls) = 4"
    by (simp add: event_count_def)
  have e: "entry_names 4 = {''0'', ''1'', ''2'', ''3''}"
    by code_simp
  from ragged_entries_dense [OF h, of ex_writer ?calls] obtain k where
    k: "ragged_entries (outcome_state (write_ragged_calls ex_writer Map.empty ''contour'' ?calls))
          ''contour'' = entry_names k"
      "succeeded (write_ragged_calls ex_writer Map.empty ''contour'' ?calls) \<longrightarrow>
        k = 0 + sum_list (map event_count ?calls)"
      "list_all valid_call ?calls \<longrightarrow>
        succeeded (write_ragged_calls ex_writer Map.empty ''contour'' ?calls)"
    by blast
  from k(3) v have s: "succeeded (write_ragged_calls ex_writer Map.empty ''contour'' ?calls)"
    by blast
  with k(2) n have "k = 4" by simp
  with k(1) e s h v show ?thesis by simp
qed

section \<open>Grayscale images and masks\<close>

lemma write_image_grayscale_create:
  assumes "name \<notin> dom grp" "well_typed (image_data d)"
    and "list_all (\<lambda>k. 0 < k) (nd_tshape (image_data d))"
  shows "write_image_grayscale w grp name d =
     Done (grp(name \<mapsto> DSet \<lparr>ds_dtype = nd_dtype (image_data d),
        ds_tshape = nd_tshape (image_data d), ds_rows = nd_rows (image_data d),
        ds_maxshape = None # map Some (nd_tshape (image_data d)),
        ds_chunks = Chunks (CHUNK_SIZE # nd_tshape (image_data d)), ds_fletcher32 = True,
        ds_compression = compression w,
        ds_attrs = [''CLASS'' \<mapsto> ''IMAGE'', ''IMAGE_VERSION'' \<mapsto> ''1.2'',
                    ''IMAGE_SUBCLASS'' \<mapsto> ''IMAGE_GRAYSCALE'']\<rparr>))"
  using write_ndarray_create [OF assms, of w]
  by (simp add: write_image_grayscale_def)

lemma well_typed_bool_to_uint8:
  "nd_dtype a = DBool \<Longrightarrow> well_typed a \<Longrightarrow> well_typed (bool_to_uint8 a)"
proof -
  assume a: "nd_dtype a = DBool" "well_typed a"
  have "\<And>x. dtype_of x = DBool \<Longrightarrow> dtype_of (bool_item_to_uint8 x) = DUInt8"
    subgoal for x by (cases x) simp_all
    done
  then show ?thesis using a
    by (auto simp: well_typed_def bool_to_uint8_def list_all_iff)
qed

lemma well_typed_image_data:
  assumes "well_typed a"
  shows "well_typed (image_data (Array a))"
proof -
  let ?b = "atleast_2d (Array a)"
  have b: "well_typed ?b" using assms
    by (auto simp: atleast_2d_def well_typed_def list_all_iff)
  let ?c = "if length (shape ?b) = 2 then reshape_single ?b else ?b"
  have c: "well_typed ?c" using b
    by (auto simp: reshape_single_def well_typed_def list_all_iff)
  show ?thesis using c well_typed_bool_to_uint8 [of ?c]
    by (simp add: image_data_def Let_def)
qed

lemma image_data_frame_shape:
  "nd_tshape a = [W] \<Longrightarrow> shape (image_data (Array a)) = [1, length (nd_rows a), W]"
  by (simp add: image_data_def atleast_2d_def reshape_single_def shape_def bool_to_uint8_def
      Let_def)

lemma bool_item_to_uint8_IBool:
  "bool_item_to_uint8 (IBool b) = IUInt8 (if b then 255 else 0)"
  by (cases b) simp_all

lemma image_data_bool:
  "nd_dtype (image_data (Array \<lparr>nd_dtype = DBool, nd_tshape = ts, nd_rows = map (map IBool) bs\<rparr>)) = DUInt8 \<and>
   concat (nd_rows (image_data (Array \<lparr>nd_dtype = DBool, nd_tshape = ts, nd_rows = map (map IBool) bs\<rparr>))) =
     map (\<lambda>b. IUInt8 (if b then 255 else 0)) (concat bs)"
  by (simp add: image_data_def atleast_2d_def reshape_single_def shape_def bool_to_uint8_def
      Let_def map_concat comp_def bool_item_to_uint8_IBool del: bool_item_to_uint8.simps)

text \<open>
  C8. Where the name is not yet in the group: for every single two-dimensional frame
  of H rows and W columns, neither of them 0, \<^verbatim>\<open>write_image_grayscale\<close> returns and
  the stored dataset has the shape (1, H, W); and for every array of booleans whose
  stored dimensions are not 0, it returns and the stored dataset has unsigned 8-bit
  elements, 0 where the input is False and 255 where it is True, in the order of the
  input.
\<close>

theorem write_image_grayscale_frame_and_mask:
  assumes "name \<notin> dom grp"
  shows "(well_typed a \<and> nd_tshape a = [W] \<and> 0 < length (nd_rows a) \<and> 0 < W \<longrightarrow>
      (\<exists>g' ds. write_image_grayscale w grp name (Array a) = Done g' \<and>
         g' name = Some (DSet ds) \<and>
         length (ds_rows ds) # ds_tshape ds = [1, length (nd_rows a), W])) \<and>
     (list_all (\<lambda>k. 0 < k) (nd_tshape (image_data
         (Array \<lparr>nd_dtype = DBool, nd_tshape = ts, nd_rows = map (map IBool) bs\<rparr>))) \<longrightarrow>
      (\<exists>g' ds. write_image_grayscale w grp name
            (Array \<lparr>nd_dtype = DBool, nd_tshape = ts, nd_rows = map (map IBool) bs\<rparr>) = Done g' \<and>
         g' name = Some (DSet ds) \<and> ds_dtype ds = DUInt8 \<and>
         concat (ds_rows ds) = map (\<lambda>b. IUInt8 (if b then 255 else 0)) (concat bs)))"
proof (intro conjI impI)
  assume h: "well_typed a \<and> nd_tshape a = [W] \<and> 0 < length (nd_rows a) \<and> 0 < W"
  have sh: "shape (image_data (Array a)) = [1, length (nd_rows a), W]"
    using h by (simp add: image_data_frame_shape)
  then have pos: "list_all (\<lambda>k. 0 < k) (nd_tshape (image_data (Array a)))"
    using h by (simp add: shape_def)
  have wt: "well_typed (image_data (Array a))" using h by (simp add: well_typed_image_data)
  show "\<exists>g' ds. write_image_grayscale w grp name (Array a) = Done g' \<and>
         g' name = Some (DSet ds) \<and>
         length (ds_rows ds) # ds_tshape ds = [1, length (nd_rows a), W]"
    using write_image_grayscale_create [OF assms wt pos, of w] sh
    by (simp add: shape_def)
next
  let ?m = "\<lparr>nd_dtype = DBool, nd_tshape = ts, nd_rows = map (map IBool) bs\<rparr>"
  assume pos: "list_all (\<lambda>k. 0 < k) (nd_tshape (image_data (Array ?m)))"
  have "well_typed ?m" by (simp add: well_typed_def list_all_iff)
  then have wt: "well_typed (image_data (Array ?m))" by (rule well_typed_image_data)
  show "\<exists>g' ds. write_image_grayscale w grp name (Array ?m) = Done g' \<and>
         g' name = Some (DSet ds) \<and> ds_dtype ds = DUInt8 \<and>
         concat (ds_rows ds) = map (\<lambda>b. IUInt8 (if b then 255 else 0)) (concat bs)"
    using write_image_grayscale_create [OF assms wt pos, of w] image_data_bool [of ts bs]
    by simp
qed

theorem write_image_grayscale_frame_and_mask_witness:
  "''mask'' \<notin> dom (Map.empty :: group) \<and>
   well_typed \<lparr>nd_dtype = DUInt8, nd_tshape = [3],
      nd_rows = [[IUInt8 1, IUInt8 2, IUInt8 3], [IUInt8 4, IUInt8 5, IUInt8 6]]\<rparr> \<and>
   (\<exists>g' ds. write_image_grayscale ex_writer Map.empty ''mask''
        (Array \<lparr>nd_dtype = DUInt8, nd_tshape = [3],
           nd_rows = [[IUInt8 1, IUInt8 2, IUInt8 3], [IUInt8 4, IUInt8 5, IUInt8 6]]\<rparr>) = Done g' \<and>
      g' ''mask'' = Some (DSet ds) \<and> length (ds_rows ds) # ds_tshape ds = [1, 2, 3]) \<and>
   list_all (\<lambda>k. 0 < k) (nd_tshape (image_data
      (Array \<lparr>nd_dtype = DBool, nd_tshape = [2],
         nd_rows = map (map IBool) [[True, False], [True, True]]\<rparr>))) \<and>
   (\<exists>g' ds. write_image_grayscale ex_writer Map.empty ''mask''
        (Array \<lparr>nd_dtype = DBool, nd_tshape = [2],
           nd_rows = map (map IBool) [[True, False], [True, True]]\<rparr>) = Done g' \<and>
      g' ''mask'' = Some (DSet ds) \<and> ds_dtype ds = DUInt8 \<and>
      concat (ds_rows ds) = [IUInt8 255, IUInt8 0, IUInt8 255, IUInt8 255])"
proof -
  let ?a = "\<lparr>nd_dtype = DUInt8, nd_tshape = [3],
      nd_rows = [[IUInt8 1, IUInt8 2, IUInt8 3], [IUInt8 4, IUInt8 5, IUInt8 6]]\<rparr>"
  let ?bs = "[[True, False], [True, True]]"
  let ?m = "\<lparr>nd_dtype = DBool, nd_tshape = [2], nd_rows = map (map IBool) ?bs\<rparr>"
  have n: "''mask'' \<notin> dom (Map.empty :: group)" by simp
  have a: "well_typed ?a \<and> nd_tshape ?a = [3] \<and> 0 < length (nd_rows ?a) \<and> 0 < (3::nat)"
    by (simp add: well_typed_def)
  have m: "list_all (\<lambda>k. 0 < k) (nd_tshape (image_data (Array ?m)))"
    by (simp add: image_data_def atleast_2d_def reshape_single_def shape_def bool_to_uint8_def
        Let_def)
  have c: "map (\<lambda>b. IUInt8 (if b then 255 else 0)) (concat ?bs) =
      [IUInt8 255, IUInt8 0, IUInt8 255, IUInt8 255]"
    by simp
  have l: "length (nd_rows ?a) = 2" by simp
  from write_image_grayscale_frame_and_mask [OF n, of ?a 3 ex_writer "[2]" ?bs] a m
  have "(\<exists>g' ds. write_image_grayscale ex_writer Map.empty ''mask'' (Array ?a) = Done g' \<and>
      g' ''mask'' = Some (DSet ds) \<and>
      length (ds_rows ds) # ds_tshape ds = [1, length (nd_rows ?a), 3])"
    and "(\<exists>g' ds. write_image_grayscale ex_writer Map.empty ''mask'' (Array ?m) = Done g' \<and>
      g' ''mask'' = Some (DSet ds) \<and> ds_dtype ds = DUInt8 \<and>
      concat (ds_rows ds) = map (\<lambda>b. IUInt8 (if b then 255 else 0)) (concat ?bs))"
    by blast+
  then have "(\<exists>g' ds. write_image_grayscale ex_writer Map.empty ''mask'' (Array ?a) = Done g' \<and>
      g' ''mask'' = Some (DSet ds) \<and> length (ds_rows ds) # ds_tshape ds = [1, 2, 3])"
    and "(\<exists>g' ds. write_image_grayscale ex_writer Map.empty ''mask'' (Array ?m) = Done g' \<and>
      g' ''mask'' = Some (DSet ds) \<and> ds_dtype ds = DUInt8 \<and>
      concat (ds_rows ds) = [IUInt8 255, IUInt8 0, IUInt8 255, IUInt8 255])"
    unfolding l c by blast+
  then show ?thesis using n a m by blast
qed

section \<open>Replacing a stored feature\<close>

lemma store_feature_fresh_array:
  assumes "feature_exists dfn feat" "feature_absent file feat"
    and "scalar_feature_exists dfn feat \<or> is_image_feature feat"
    and "well_typed (array_to_store dfn feat d)"
    and "list_all (\<lambda>k. 0 < k) (nd_tshape (array_to_store dfn feat d))"
  shows "\<exists>file' ds. store_feature dfn w file feat (ArrayData d) = Done file' \<and>
     stored_feature file' feat = Some ds \<and>
     ds_dtype ds = nd_dtype (array_to_store dfn feat d) \<and>
     ds_tshape ds = nd_tshape (array_to_store dfn feat d) \<and>
     ds_rows ds = nd_rows (array_to_store dfn feat d)"
proof -
  obtain ev where ev: "require_group (root file) ''events'' = Inr ev" "feat \<notin> dom ev"
    using require_events [OF assms(2)] by blast
  have rep: "replace_existing w ev feat (ArrayData d) = Done ev"
    using ev(2) by (simp add: replace_existing_def)
  show ?thesis
  proof (cases "scalar_feature_exists dfn feat")
    case True
    then show ?thesis
      using assms(1,4,5) ev rep write_ndarray_create [of feat ev "atleast_1d d" w]
      by (simp add: store_feature_def write_feature_def array_to_store_def stored_feature_def)
  next
    case False
    then have img: "is_image_feature feat" using assms(3) by simp
    then have nc: "feat \<noteq> ''contour''" by (auto simp: is_image_feature_def)
    show ?thesis
      using False img nc assms(1,4,5) ev rep write_image_grayscale_create [of feat ev d w]
      by (simp add: store_feature_def write_feature_def array_to_store_def stored_feature_def
          is_image_feature_def)
  qed
qed

text \<open>
  C5. In replace mode, for every feature other than \<^verbatim>\<open>trace\<close> that is already in the
  events group, \<^verbatim>\<open>store_feature\<close> does what it does on the container without that
  member: the existing array is deleted before the write. For a scalar or image
  feature and an array with no dimension of length 0 after the first, the call returns
  and the one array stored under the name has the shape and the events of the new data,
  none of the earlier write.
\<close>

theorem store_feature_replace:
  assumes "mode w = Replace" "feature_exists dfn feat" "feat \<noteq> ''trace''"
    and "root file ''events'' = Some (Grp ev)" "feat \<in> dom ev"
  shows "store_feature dfn w file feat data =
       store_feature dfn w (file\<lparr>root := (root file)(''events'' \<mapsto> Grp (ev(feat := None)))\<rparr>)
         feat data \<and>
     ((scalar_feature_exists dfn feat \<or> is_image_feature feat) \<and> data = ArrayData d \<and>
      well_typed (array_to_store dfn feat d) \<and>
      list_all (\<lambda>k. 0 < k) (nd_tshape (array_to_store dfn feat d)) \<longrightarrow>
      (\<exists>file' ds. store_feature dfn w file feat data = Done file' \<and>
         stored_feature file' feat = Some ds \<and>
         length (ds_rows ds) # ds_tshape ds = shape (array_to_store dfn feat d) \<and>
         ds_rows ds = nd_rows (array_to_store dfn feat d)))"
proof -
  let ?file0 = "file\<lparr>root := (root file)(''events'' \<mapsto> Grp (ev(feat := None)))\<rparr>"
  have eq: "store_feature dfn w file feat data = store_feature dfn w ?file0 feat data"
    using assms by (simp add: store_feature_def require_group_def replace_existing_def)
  have absent: "feature_absent ?file0 feat" by (simp add: feature_absent_def)
  show ?thesis
  proof (intro conjI impI)
    show "store_feature dfn w file feat data = store_feature dfn w ?file0 feat data" by (rule eq)
  next
    assume h: "(scalar_feature_exists dfn feat \<or> is_image_feature feat) \<and> data = ArrayData d \<and>
      well_typed (array_to_store dfn feat d) \<and>
      list_all (\<lambda>k. 0 < k) (nd_tshape (array_to_store dfn feat d))"
    from store_feature_fresh_array [OF assms(2) absent, of d w] h
    show "\<exists>file' ds. store_feature dfn w file feat data = Done file' \<and>
         stored_feature file' feat = Some ds \<and>
         length (ds_rows ds) # ds_tshape ds = shape (array_to_store dfn feat d) \<and>
         ds_rows ds = nd_rows (array_to_store dfn feat d)"
      unfolding eq by (auto simp: shape_def)
  qed
qed

theorem store_feature_replace_witness:
  "mode ex_replacer = Replace \<and> feature_exists ex_dfn ''deform'' \<and> ''deform'' \<noteq> ''trace'' \<and>
   root ex_file_deform ''events'' = Some (Grp [''deform'' \<mapsto> DSet ex_stored_deform]) \<and>
   ''deform'' \<in> dom [''deform'' \<mapsto> DSet ex_stored_deform] \<and>
   length (ds_rows ex_stored_deform) = 3 \<and>
   (\<exists>file' ds. store_feature ex_dfn ex_replacer ex_file_deform ''deform''
        (ArrayData (ex_floats [7])) = Done file' \<and>
      stored_feature file' ''deform'' = Some ds \<and>
      length (ds_rows ds) # ds_tshape ds = [1] \<and>
      ds_rows ds = [[IOther ''float64'' 7]])"
proof -
  have h: "mode ex_replacer = Replace" "feature_exists ex_dfn ''deform''" "''deform'' \<noteq> ''trace''"
    "root ex_file_deform ''events'' = Some (Grp [''deform'' \<mapsto> DSet ex_stored_deform])"
    "''deform'' \<in> dom [''deform'' \<mapsto> DSet ex_stored_deform]"
    by (simp_all add: ex_replacer_def ex_dfn_def ex_file_deform_def)
  have a: "array_to_store ex_dfn ''deform'' (ex_floats [7]) =
      \<lparr>nd_dtype = DOther ''float64'', nd_tshape = [], nd_rows = [[IOther ''float64'' 7]]\<rparr>"
    by (simp add: array_to_store_def ex_dfn_def ex_floats_def atleast_1d_def)
  have p: "(scalar_feature_exists ex_dfn ''deform'' \<or> is_image_feature ''deform'') \<and>
      ArrayData (ex_floats [7]) = ArrayData (ex_floats [7]) \<and>
      well_typed (array_to_store ex_dfn ''deform'' (ex_floats [7])) \<and>
      list_all (\<lambda>k. 0 < k) (nd_tshape (array_to_store ex_dfn ''deform'' (ex_floats [7])))"
    unfolding a by (simp add: ex_dfn_def well_typed_def)
  have l: "length (ds_rows ex_stored_deform) = 3" by (simp add: ex_stored_deform_def)
  from store_feature_replace [OF h, of "ArrayData (ex_floats [7])" "ex_floats [7]"] p
  have "\<exists>file' ds. store_feature ex_dfn ex_replacer ex_file_deform ''deform''
        (ArrayData (ex_floats [7])) = Done file' \<and>
      stored_feature file' ''deform'' = Some ds \<and>
      length (ds_rows ds) # ds_tshape ds = shape (array_to_store ex_dfn ''deform'' (ex_floats [7])) \<and>
      ds_rows ds = nd_rows (array_to_store ex_dfn ''deform'' (ex_floats [7]))"
    by blast
  then have "\<exists>file' ds. store_feature ex_dfn ex_replacer ex_file_deform ''deform''
        (ArrayData (ex_floats [7])) = Done file' \<and>
      stored_feature file' ''deform'' = Some ds \<and>
      length (ds_rows ds) # ds_tshape ds = [1] \<and>
      ds_rows ds = [[IOther ''float64'' 7]]"
    unfolding a by (simp add: shape_def)
  then show ?thesis using h l by blast
qed

section \<open>Trace channels outside the vocabulary\<close>








lemma restrict_map_delete: "(m(k := None)) |` A = m |` (A - {k})"
  by (auto simp: restrict_map_def fun_eq_iff)













section \<open>Validation of metadata\<close>

lemma check_keys_None:
  "(check_keys dfn sec kvs = None) = list_all (\<lambda>(ck, v). config_key_exists dfn sec ck) kvs"
  by (induction kvs) (auto split: if_splits)

lemma check_keys_Some:
  "check_keys dfn sec kvs = Some e \<Longrightarrow> is_validation_error e"
  by (induction kvs) (auto simp: is_validation_error_def split: if_splits)

lemma check_meta_None: "(check_meta dfn meta = None) = meta_valid dfn meta"
  by (induction meta)
    (auto simp: meta_valid_def check_keys_None [symmetric] split: option.splits if_splits)

lemma check_meta_Some: "check_meta dfn meta = Some e \<Longrightarrow> is_validation_error e"
proof (induction meta)
  case Nil
  then show ?case by simp
next
  case (Cons p meta)
  obtain sec kvs where p: "p = (sec, kvs)" by (cases p)
  show ?case
    using Cons p check_keys_Some [of dfn sec kvs e]
    by (auto simp: is_validation_error_def split: if_splits option.splits)
qed

lemma write_section_error:
  "write_section dfn sec kvs a = Raised e a' \<Longrightarrow> \<not> is_validation_error e"
  by (induction kvs arbitrary: a)
    (auto simp: is_validation_error_def Let_def split: option.splits if_splits)

lemma write_meta_error:
  "write_meta dfn meta a = Raised e a' \<Longrightarrow> \<not> is_validation_error e"
proof (induction meta arbitrary: a)
  case Nil
  then show ?case by simp
next
  case (Cons p meta)
  obtain sec kvs where p: "p = (sec, kvs)" by (cases p)
  show ?case
  proof (cases "write_section dfn sec kvs a")
    case (Done a1)
    then show ?thesis using Cons p by simp
  next
    case (Raised e1 a1)
    then show ?thesis using Cons.prems p write_section_error [of dfn sec kvs a e1 a1] by simp
  qed
qed

text \<open>
  C9. \<^verbatim>\<open>store_metadata\<close> checks every section and key before it writes: when the mapping
  has a section or key that is not registered, the call raises one of the two
  validation errors and leaves the container as it was; and whenever the call raises a
  validation error, the container is unchanged.
\<close>

theorem store_metadata_validates_first:
  "(\<not> meta_valid dfn meta \<longrightarrow>
      (\<exists>e. is_validation_error e \<and> store_metadata dfn file meta version_brand = Raised e file)) \<and>
   (store_metadata dfn file meta version_brand = Raised e file' \<and> is_validation_error e \<longrightarrow>
      file' = file)"
proof (intro conjI impI)
  assume "\<not> meta_valid dfn meta"
  then obtain e where "check_meta dfn meta = Some e"
    using check_meta_None [of dfn meta] by (cases "check_meta dfn meta") auto
  then show "\<exists>e. is_validation_error e \<and> store_metadata dfn file meta version_brand = Raised e file"
    using check_meta_Some by (auto simp: store_metadata_def)
next
  assume a: "store_metadata dfn file meta version_brand = Raised e file' \<and> is_validation_error e"
  show "file' = file"
  proof (cases "check_meta dfn meta")
    case (Some e')
    then show ?thesis using a by (simp add: store_metadata_def)
  next
    case None
    let ?m = "if version_brand then brand_version dfn (attrs file) meta else meta"
    from a None have "map_outcome (\<lambda>a. file\<lparr>attrs := a\<rparr>) (write_meta dfn ?m (attrs file)) =
        Raised e file'"
      by (simp add: store_metadata_def Let_def)
    then obtain a' where "write_meta dfn ?m (attrs file) = Raised e a'"
      by (cases "write_meta dfn ?m (attrs file)") auto
    then show ?thesis using a write_meta_error by blast
  qed
qed

theorem store_metadata_validates_first_witness:
  "\<not> meta_valid ex_dfn [(''imaging'', [(''flash duration'', MInt 2)]), (''bogus'', [(''x'', MInt 1)])] \<and>
   (\<exists>e. is_validation_error e \<and>
      store_metadata ex_dfn ex_file
        [(''imaging'', [(''flash duration'', MInt 2)]), (''bogus'', [(''x'', MInt 1)])] True =
        Raised e ex_file) \<and>
   store_metadata ex_dfn ex_file
     [(''imaging'', [(''flash duration'', MInt 2)]), (''bogus'', [(''x'', MInt 1)])] True =
     Raised (MetaSectionNotDefined ''bogus'') ex_file \<and>
   is_validation_error (MetaSectionNotDefined ''bogus'')"
proof -
  let ?m = "[(''imaging'', [(''flash duration'', MInt 2)]), (''bogus'', [(''x'', MInt 1)])]"
  have v: "\<not> meta_valid ex_dfn ?m" by (simp add: meta_valid_def ex_dfn_def)
  have r: "store_metadata ex_dfn ex_file ?m True = Raised (MetaSectionNotDefined ''bogus'') ex_file"
    by (simp add: store_metadata_def ex_dfn_def)
  have i: "is_validation_error (MetaSectionNotDefined ''bogus'')"
    by (simp add: is_validation_error_def)
  from store_metadata_validates_first [of ex_dfn ?m ex_file True] v
  have "\<exists>e. is_validation_error e \<and> store_metadata ex_dfn ex_file ?m True = Raised e ex_file"
    by blast
  then show ?thesis using v r i by blast
qed

section \<open>The version attribute\<close>

lemma colon_split_unique:
  assumes "CHR '':'' \<notin> set p" "CHR '':'' \<notin> set q"
    and "sec @ '':'' @ ck = p @ '':'' @ q"
  shows "sec = p \<and> ck = q"
proof -
  from assms(3) have "sec @ CHR '':'' # ck = p @ CHR '':'' # q" by simp
  then obtain us where "(sec = p @ us \<and> us @ CHR '':'' # ck = CHR '':'' # q) \<or>
      (sec @ us = p \<and> CHR '':'' # ck = us @ CHR '':'' # q)"
    by (auto simp: append_eq_append_conv2)
  then show ?thesis
  proof
    assume a: "sec = p @ us \<and> us @ CHR '':'' # ck = CHR '':'' # q"
    show ?thesis
    proof (cases us)
      case Nil
      then show ?thesis using a by simp
    next
      case (Cons u us')
      then have "us' @ CHR '':'' # ck = q" using a by simp
      then have "CHR '':'' \<in> set q" by auto
      then show ?thesis using assms(2) by simp
    qed
  next
    assume a: "sec @ us = p \<and> CHR '':'' # ck = us @ CHR '':'' # q"
    show ?thesis
    proof (cases us)
      case Nil
      then show ?thesis using a by simp
    next
      case (Cons u us')
      then have "u = CHR '':''" using a by simp
      then have "CHR '':'' \<in> set p" using a Cons by auto
      then show ?thesis using assms(1) by simp
    qed
  qed
qed

lemma version_key_unique:
  "sec @ '':'' @ ck = ''setup:software version'' \<Longrightarrow> sec = ''setup'' \<and> ck = ''software version''"
  using colon_split_unique [of "''setup''" "''software version''" sec ck] by simp

lemma write_section_other:
  "\<forall>a. (\<forall>ck \<in> fst ` set kvs. sec @ '':'' @ ck \<noteq> key) \<longrightarrow>
     outcome_state (write_section dfn sec kvs a) key = a key"
proof (induction kvs)
  case Nil
  show ?case by simp
next
  case (Cons p kvs)
  obtain ck v where p: "p = (ck, v)" by (cases p)
  show ?case
  proof (intro allI impI)
    fix a :: "string \<rightharpoonup> mvalue"
    assume h: "\<forall>ck \<in> fst ` set (p # kvs). sec @ '':'' @ ck \<noteq> key"
    then have k: "sec @ '':'' @ ck \<noteq> key" and r: "\<forall>ck \<in> fst ` set kvs. sec @ '':'' @ ck \<noteq> key"
      using p by auto
    have step: "\<And>x. outcome_state (write_section dfn sec kvs (a(sec @ '':'' @ ck \<mapsto> x))) key = a key"
    proof -
      fix x
      have "outcome_state (write_section dfn sec kvs (a(sec @ '':'' @ ck \<mapsto> x))) key =
          (a(sec @ '':'' @ ck \<mapsto> x)) key"
        using Cons.IH r by blast
      then show "outcome_state (write_section dfn sec kvs (a(sec @ '':'' @ ck \<mapsto> x))) key = a key"
        using k by simp
    qed
    show "outcome_state (write_section dfn sec (p # kvs) a) key = a key"
    proof (cases "decode_bytes v")
      case None
      then show ?thesis using p by simp
    next
      case (Some val)
      show ?thesis
      proof (cases "sec = ''user''")
        case True
        have "write_section dfn sec (p # kvs) a =
            write_section dfn sec kvs (a(sec @ '':'' @ ck \<mapsto> val))"
          unfolding p using Some True by (simp only: write_section.simps Let_def option.case if_True simp_thms)
        then show ?thesis using step by simp
      next
        case False
        show ?thesis
        proof (cases "get_config_value_func dfn sec ck val")
          case None
          then show ?thesis using p Some False by simp
        next
          case cv: (Some cv)
          have "write_section dfn sec (p # kvs) a =
              write_section dfn sec kvs (a(sec @ '':'' @ ck \<mapsto> cv))"
            unfolding p using Some False cv
            by (simp only: write_section.simps Let_def option.case if_False simp_thms)
          then show ?thesis using step by simp
        qed
      qed
    qed
  qed
qed

lemma write_meta_other:
  "\<forall>a. (\<forall>(sec, kvs) \<in> set meta. \<forall>ck \<in> fst ` set kvs. sec @ '':'' @ ck \<noteq> key) \<longrightarrow>
     outcome_state (write_meta dfn meta a) key = a key"
proof (induction meta)
  case Nil
  show ?case by simp
next
  case (Cons p meta)
  obtain sec kvs where p: "p = (sec, kvs)" by (cases p)
  show ?case
  proof (intro allI impI)
    fix a :: "string \<rightharpoonup> mvalue"
    assume h: "\<forall>(sec, kvs) \<in> set (p # meta). \<forall>ck \<in> fst ` set kvs. sec @ '':'' @ ck \<noteq> key"
    have s: "outcome_state (write_section dfn sec kvs a) key = a key"
      using write_section_other [of kvs sec key dfn] h p by auto
    have r: "\<forall>(sec, kvs) \<in> set meta. \<forall>ck \<in> fst ` set kvs. sec @ '':'' @ ck \<noteq> key"
      using h by auto
    show "outcome_state (write_meta dfn (p # meta) a) key = a key"
    proof (cases "write_section dfn sec kvs a")
      case (Raised e a1)
      then show ?thesis using p s by simp
    next
      case (Done a1)
      have "outcome_state (write_meta dfn meta a1) key = a1 key" using Cons.IH r by blast
      then show ?thesis using p s Done by simp
    qed
  qed
qed

lemma supplied_none_no_key:
  assumes "distinct (map fst meta)" "supplied_version meta = None"
  shows "\<forall>(sec, kvs) \<in> set meta. \<forall>ck \<in> fst ` set kvs.
     sec @ '':'' @ ck \<noteq> ''setup:software version''"
proof (intro ballI, clarify)
  fix sec kvs ck v
  assume m: "(sec, kvs) \<in> set meta" and c: "(ck, v) \<in> set kvs"
    and e: "sec @ '':'' @ fst (ck, v) = ''setup:software version''"
  from e have "sec = ''setup''" "ck = ''software version''"
    using version_key_unique [of sec ck] by simp_all
  moreover have "map_of meta sec = Some kvs" using assms(1) m by simp
  moreover have "map_of kvs ck \<noteq> None" using c by (metis map_of_eq_None_iff fst_conv image_eqI)
  ultimately show False using assms(2) by (simp add: supplied_version_def)
qed

lemma map_of_dict_set: "map_of (dict_set k v d) = (map_of d)(k \<mapsto> v)"
  by (induction d) (auto simp: fun_eq_iff)

lemma keys_dict_set: "set (map fst (dict_set k v d)) = insert k (set (map fst d))"
  by (induction d) (fastforce split: if_splits)+

lemma distinct_dict_set: "distinct (map fst d) \<Longrightarrow> distinct (map fst (dict_set k v d))"
proof (induction d)
  case Nil
  then show ?case by simp
next
  case (Cons p d)
  obtain k' v' where p: "p = (k', v')" by (cases p)
  show ?case
  proof (cases "k' = k")
    case True
    then show ?thesis using Cons.prems p by simp
  next
    case False
    have "k' \<notin> set (map fst (dict_set k v d))"
      using Cons.prems p False by (simp only: keys_dict_set) simp
    then show ?thesis using Cons p False by simp
  qed
qed

lemma write_section_head:
  "write_section dfn sec ((ck, v) # kvs) a =
     (case stored_value dfn sec ck v of
        None \<Rightarrow> Raised (if decode_bytes v = None then UnicodeError else ConversionError) a
      | Some x \<Rightarrow> write_section dfn sec kvs (a(sec @ '':'' @ ck \<mapsto> x)))"
  by (simp add: stored_value_def Let_def split: option.splits)

lemma write_section_key:
  "\<forall>a a'. distinct (map fst kvs) \<longrightarrow> map_of kvs ck = Some v \<longrightarrow>
     write_section dfn sec kvs a = Done a' \<longrightarrow>
     stored_value dfn sec ck v \<noteq> None \<and> a' (sec @ '':'' @ ck) = stored_value dfn sec ck v"
proof (induction kvs)
  case Nil
  show ?case by simp
next
  case (Cons p kvs)
  obtain ck1 v1 where p: "p = (ck1, v1)" by (cases p)
  show ?case
  proof (intro allI impI)
    fix a a' :: "string \<rightharpoonup> mvalue"
    assume d: "distinct (map fst (p # kvs))" and m: "map_of (p # kvs) ck = Some v"
      and w: "write_section dfn sec (p # kvs) a = Done a'"
    from w p obtain x where x: "stored_value dfn sec ck1 v1 = Some x"
      "write_section dfn sec kvs (a(sec @ '':'' @ ck1 \<mapsto> x)) = Done a'"
      by (auto simp: write_section_head simp del: write_section.simps split: option.splits)
    show "stored_value dfn sec ck v \<noteq> None \<and> a' (sec @ '':'' @ ck) = stored_value dfn sec ck v"
    proof (cases "ck1 = ck")
      case True
      then have v: "v1 = v" using m p by simp
      have "\<forall>ck' \<in> fst ` set kvs. sec @ '':'' @ ck' \<noteq> sec @ '':'' @ ck"
        using d p True by auto
      then have "outcome_state (write_section dfn sec kvs (a(sec @ '':'' @ ck1 \<mapsto> x)))
          (sec @ '':'' @ ck) = (a(sec @ '':'' @ ck1 \<mapsto> x)) (sec @ '':'' @ ck)"
        using write_section_other [of kvs sec "sec @ '':'' @ ck" dfn] by blast
      then show ?thesis using x True v by simp
    next
      case False
      then have "map_of kvs ck = Some v" using m p by simp
      moreover have "distinct (map fst kvs)" using d by simp
      ultimately show ?thesis using Cons.IH x(2) by blast
    qed
  qed
qed

lemma write_meta_key:
  "\<forall>a a'. distinct (map fst meta) \<longrightarrow> map_of meta sec = Some kvs \<longrightarrow>
     distinct (map fst kvs) \<longrightarrow> map_of kvs ck = Some v \<longrightarrow>
     (\<forall>(s', kvs') \<in> set meta. s' \<noteq> sec \<longrightarrow>
        (\<forall>ck' \<in> fst ` set kvs'. s' @ '':'' @ ck' \<noteq> sec @ '':'' @ ck)) \<longrightarrow>
     write_meta dfn meta a = Done a' \<longrightarrow>
     stored_value dfn sec ck v \<noteq> None \<and> a' (sec @ '':'' @ ck) = stored_value dfn sec ck v"
proof (induction meta)
  case Nil
  show ?case by simp
next
  case (Cons p meta)
  obtain s1 kvs1 where p: "p = (s1, kvs1)" by (cases p)
  show ?case
  proof (intro allI impI)
    fix a a' :: "string \<rightharpoonup> mvalue"
    assume d: "distinct (map fst (p # meta))" and m: "map_of (p # meta) sec = Some kvs"
      and dk: "distinct (map fst kvs)" and mk: "map_of kvs ck = Some v"
      and o: "\<forall>(s', kvs') \<in> set (p # meta). s' \<noteq> sec \<longrightarrow>
        (\<forall>ck' \<in> fst ` set kvs'. s' @ '':'' @ ck' \<noteq> sec @ '':'' @ ck)"
      and w: "write_meta dfn (p # meta) a = Done a'"
    from w p obtain a1 where a1: "write_section dfn s1 kvs1 a = Done a1"
      "write_meta dfn meta a1 = Done a'"
      by (auto split: outcome.splits)
    have o': "\<forall>(s', kvs') \<in> set meta. s' \<noteq> sec \<longrightarrow>
        (\<forall>ck' \<in> fst ` set kvs'. s' @ '':'' @ ck' \<noteq> sec @ '':'' @ ck)"
      using o by auto
    show "stored_value dfn sec ck v \<noteq> None \<and> a' (sec @ '':'' @ ck) = stored_value dfn sec ck v"
    proof (cases "s1 = sec")
      case True
      then have k: "kvs1 = kvs" using m p by simp
      have here: "stored_value dfn sec ck v \<noteq> None \<and> a1 (sec @ '':'' @ ck) = stored_value dfn sec ck v"
        using write_section_key [of kvs ck v dfn sec] dk mk a1(1) True k by blast
      have "\<forall>(s', kvs') \<in> set meta. s' \<noteq> sec" using d p True by force
      then have "\<forall>(s', kvs') \<in> set meta. \<forall>ck' \<in> fst ` set kvs'.
          s' @ '':'' @ ck' \<noteq> sec @ '':'' @ ck"
        using o' by blast
      then have "outcome_state (write_meta dfn meta a1) (sec @ '':'' @ ck) = a1 (sec @ '':'' @ ck)"
        using write_meta_other [of meta "sec @ '':'' @ ck" dfn] by blast
      then show ?thesis using here a1(2) by simp
    next
      case False
      then have "map_of meta sec = Some kvs" using m p by simp
      moreover have "distinct (map fst meta)" using d by simp
      ultimately show ?thesis using Cons.IH dk mk o' a1(2) by blast
    qed
  qed
qed

lemma ustr_append: "ustr (a @ b) = ustr a @ ustr b"
  by (simp add: ustr_def)

text \<open>
  C6. \<^verbatim>\<open>store_metadata\<close> with version branding, for a mapping that is a dictionary (no
  section twice, no key twice in \<^verbatim>\<open>setup\<close>). When the container has the attribute
  \<^verbatim>\<open>setup:software version\<close> and the mapping has no \<^verbatim>\<open>software version\<close> under \<^verbatim>\<open>setup\<close>,
  the attribute is the same after the call, whether the call returns or raises. When
  the mapping has the version string V there, the registered converter of that key
  returns the branded string as it is and the call returns, the attribute is V followed
  by \<^verbatim>\<open> | dclab \<close> and the version of dclab.
\<close>

theorem store_metadata_version_brand:
  "(distinct (map fst meta) \<and> ''setup:software version'' \<in> dom (attrs file) \<and>
    supplied_version meta = None \<longrightarrow>
      attrs (outcome_state (store_metadata dfn file meta True)) ''setup:software version'' =
        attrs file ''setup:software version'') \<and>
   (distinct (map fst meta2) \<and>
    (\<forall>kvs. map_of meta2 ''setup'' = Some kvs \<longrightarrow> distinct (map fst kvs)) \<and>
    supplied_version meta2 = Some (MStr V) \<and>
    get_config_value_func dfn ''setup'' ''software version''
       (MStr (V @ ustr ('' | dclab '' @ version dfn))) =
      Some (MStr (V @ ustr ('' | dclab '' @ version dfn))) \<and>
    store_metadata dfn file2 meta2 True = Done file2' \<longrightarrow>
      attrs file2' ''setup:software version'' =
        Some (MStr (V @ ustr ('' | dclab '' @ version dfn))))"
proof (intro conjI impI)
  let ?key = "''setup:software version''"
  assume h: "distinct (map fst meta) \<and> ?key \<in> dom (attrs file) \<and> supplied_version meta = None"
  show "attrs (outcome_state (store_metadata dfn file meta True)) ?key = attrs file ?key"
  proof (cases "check_meta dfn meta")
    case (Some e)
    then show ?thesis by (simp add: store_metadata_def)
  next
    case None
    have b: "brand_version dfn (attrs file) meta = meta" using h by (simp add: brand_version_def)
    have no: "\<forall>(sec, kvs) \<in> set meta. \<forall>ck \<in> fst ` set kvs. sec @ '':'' @ ck \<noteq> ?key"
      using h by (intro supplied_none_no_key) simp_all
    have "outcome_state (write_meta dfn meta (attrs file)) ?key = attrs file ?key"
      by (rule mp [OF spec [OF write_meta_other [of meta ?key dfn]] no])
    then show ?thesis using None b
      by (cases "write_meta dfn meta (attrs file)") (simp_all add: store_metadata_def)
  qed
next
  let ?key = "''setup:software version''"
  let ?X = "V @ ustr ('' | dclab '' @ version dfn)"
  assume h: "distinct (map fst meta2) \<and>
    (\<forall>kvs. map_of meta2 ''setup'' = Some kvs \<longrightarrow> distinct (map fst kvs)) \<and>
    supplied_version meta2 = Some (MStr V) \<and>
    get_config_value_func dfn ''setup'' ''software version'' (MStr ?X) = Some (MStr ?X) \<and>
    store_metadata dfn file2 meta2 True = Done file2'"
  then obtain kvs0 where kvs0: "map_of meta2 ''setup'' = Some kvs0"
    "map_of kvs0 ''software version'' = Some (MStr V)"
    by (auto simp: supplied_version_def split: option.splits)
  let ?kvs = "dict_set ''software version'' (MStr ?X) kvs0"
  let ?m = "dict_set ''setup'' ?kvs meta2"
  have b: "brand_version dfn (attrs file2) meta2 = ?m"
    using h kvs0 by (simp add: brand_version_def py_str_def ustr_def)
  have chk: "check_meta dfn meta2 = None"
    using h by (cases "check_meta dfn meta2") (simp_all add: store_metadata_def)
  then have "map_outcome (\<lambda>a. file2\<lparr>attrs := a\<rparr>) (write_meta dfn ?m (attrs file2)) = Done file2'"
    using h b by (simp add: store_metadata_def)
  then obtain a' where a': "write_meta dfn ?m (attrs file2) = Done a'" "file2' = file2\<lparr>attrs := a'\<rparr>"
    by (cases "write_meta dfn ?m (attrs file2)") auto
  have other: "\<forall>(s', kvs') \<in> set ?m. s' \<noteq> ''setup'' \<longrightarrow>
      (\<forall>ck' \<in> fst ` set kvs'. s' @ '':'' @ ck' \<noteq> ''setup'' @ '':'' @ ''software version'')"
    using version_key_unique by auto
  have f1: "distinct (map fst ?m)" using h by (simp add: distinct_dict_set)
  have f2: "map_of ?m ''setup'' = Some ?kvs" by (simp add: map_of_dict_set)
  have f3: "distinct (map fst ?kvs)" using h kvs0(1) by (simp add: distinct_dict_set)
  have f4: "map_of ?kvs ''software version'' = Some (MStr ?X)" by (simp add: map_of_dict_set)
  have "stored_value dfn ''setup'' ''software version'' (MStr ?X) \<noteq> None \<and>
      a' (''setup'' @ '':'' @ ''software version'') =
        stored_value dfn ''setup'' ''software version'' (MStr ?X)"
    by (rule write_meta_key [THEN spec, THEN spec, THEN mp, THEN mp, THEN mp, THEN mp,
          THEN mp, THEN mp, OF f1 f2 f3 f4 other a'(1)])
  moreover have "stored_value dfn ''setup'' ''software version'' (MStr ?X) = Some (MStr ?X)"
    using h by (simp add: stored_value_def decode_bytes_def)
  ultimately show "attrs file2' ?key = Some (MStr ?X)"
    using a'(2) by simp
qed

lemma succeeded_Done: "succeeded r \<Longrightarrow> r = Done (outcome_state r)"
  by (cases r) simp_all

theorem store_metadata_version_brand_witness:
  "distinct (map fst [(''experiment'', [(''sample'', MStr (ustr ''beads''))])]) \<and>
   ''setup:software version'' \<in> dom (attrs ex_file_branded) \<and>
   supplied_version [(''experiment'', [(''sample'', MStr (ustr ''beads''))])] = None \<and>
   attrs (outcome_state (store_metadata ex_dfn ex_file_branded
        [(''experiment'', [(''sample'', MStr (ustr ''beads''))])] True)) ''setup:software version'' =
     Some (MStr (ustr ''0.1 | dclab 0.30.0'')) \<and>
   distinct (map fst [(''setup'', [(''software version'', MStr (ustr ''1.0''))])]) \<and>
   supplied_version [(''setup'', [(''software version'', MStr (ustr ''1.0''))])] =
     Some (MStr (ustr ''1.0'')) \<and>
   succeeded (store_metadata ex_dfn ex_file
     [(''setup'', [(''software version'', MStr (ustr ''1.0''))])] True) \<and>
   attrs (outcome_state (store_metadata ex_dfn ex_file
        [(''setup'', [(''software version'', MStr (ustr ''1.0''))])] True)) ''setup:software version'' =
     Some (MStr (ustr ''1.0 | dclab 0.33.1''))"
proof -
  let ?m1 = "[(''experiment'', [(''sample'', MStr (ustr ''beads''))])]"
  let ?m2 = "[(''setup'', [(''software version'', MStr (ustr ''1.0''))])]"
  let ?r = "store_metadata ex_dfn ex_file ?m2 True"
  have h1: "distinct (map fst ?m1) \<and> ''setup:software version'' \<in> dom (attrs ex_file_branded) \<and>
      supplied_version ?m1 = None"
    by (simp add: ex_file_branded_def supplied_version_def)
  have s: "succeeded ?r"
    by (simp add: store_metadata_def brand_version_def supplied_version_def ex_dfn_def
        ex_file_def py_str_def decode_bytes_def Let_def)
  have x: "ustr ''1.0'' @ ustr ('' | dclab '' @ version ex_dfn) = ustr ''1.0 | dclab 0.33.1''"
    by (simp add: ustr_def ex_dfn_def)
  have h2: "distinct (map fst ?m2) \<and>
      (\<forall>kvs. map_of ?m2 ''setup'' = Some kvs \<longrightarrow> distinct (map fst kvs)) \<and>
      supplied_version ?m2 = Some (MStr (ustr ''1.0'')) \<and>
      get_config_value_func ex_dfn ''setup'' ''software version''
         (MStr (ustr ''1.0'' @ ustr ('' | dclab '' @ version ex_dfn))) =
        Some (MStr (ustr ''1.0'' @ ustr ('' | dclab '' @ version ex_dfn))) \<and>
      ?r = Done (outcome_state ?r)"
    using succeeded_Done [OF s] by (simp add: supplied_version_def ex_dfn_def)
  from store_metadata_version_brand
    [of ?m1 ex_file_branded ex_dfn ?m2 "ustr ''1.0''" ex_file "outcome_state ?r"] h1 h2
  have "attrs (outcome_state (store_metadata ex_dfn ex_file_branded ?m1 True))
        ''setup:software version'' = attrs ex_file_branded ''setup:software version''"
    and "attrs (outcome_state ?r) ''setup:software version'' =
        Some (MStr (ustr ''1.0'' @ ustr ('' | dclab '' @ version ex_dfn)))"
    by blast+
  then have "attrs (outcome_state (store_metadata ex_dfn ex_file_branded ?m1 True))
        ''setup:software version'' = Some (MStr (ustr ''0.1 | dclab 0.30.0''))"
    and "attrs (outcome_state ?r) ''setup:software version'' =
        Some (MStr (ustr ''1.0 | dclab 0.33.1''))"
    unfolding x by (simp_all add: ex_file_branded_def)
  then show ?thesis using h1 h2 s by blast
qed

section \<open>A single string given as the lines\<close>

lemma as_line_list_single:
  "as_line_list (OneStr s) = [LStr s]" "as_line_list (OneBytes bs) = [LBytes bs]"
  by (simp_all add: as_line_list_def)

lemma write_text_single_value:
  "write_text w g name (OneStr s) = write_text w g name (LineList [LStr s])"
  "write_text w g name (OneBytes bs) = write_text w g name (LineList [LBytes bs])"
  by (simp_all add: write_text_def as_line_list_def)

lemma write_text_single_entry:
  assumes "g name = Some (DSet ds)" "mode w \<noteq> Replace"
    and "ds_dtype ds = DBytes wd" "ds_tshape ds = []" "ds_maxshape ds = None # ms"
    and "as_line_list v = [l]" "line_bytes l = Some b"
  shows "\<exists>g'. write_text w g name v = Done g' \<and>
     text_records g' name = text_records g name @ [fixed_width wd b] \<and>
     (length b \<le> wd \<longrightarrow> take (length b) (fixed_width wd b) = b)"
proof -
  have c: "call_bytes v = Some [b]" using assms(6,7) by (simp add: call_bytes_def)
  have "write_text w g name v =
      Done (g(name \<mapsto> DSet (ds\<lparr>ds_rows := ds_rows ds @
        map (\<lambda>b. [IBytes (fixed_width wd b)]) [b]\<rparr>)))"
    using assms(1-5) c by (rule write_text_append)
  then show ?thesis using assms(1)
    by (simp add: text_records_def record_bytes_def fixed_width_whole)
qed

text \<open>
  C10. A single string or byte string is treated as a list of one line
  (\<open>write_text_single_value\<close>), and the stored array gains one entry
  (\<open>write_text_single_entry\<close>), which holds the encoded value whole when the value is no
  longer than the width of the array. The code does not check that: a log created with
  the line \<^verbatim>\<open>start\<close> has width 100, and the string of 101 letters \<^verbatim>\<open>x\<close> written to it
  next is stored as its first 100 bytes.
\<close>

theorem write_text_single_line_cut:
  "text_width ex_log ''log'' = Some 100 \<and>
   line_bytes (LStr (replicate 101 120)) = Some (replicate 101 120) \<and>
   succeeded (write_text ex_writer ex_log ''log'' (OneStr (replicate 101 120))) \<and>
   text_records (outcome_state (write_text ex_writer ex_log ''log'' (OneStr (replicate 101 120))))
     ''log'' = [fixed_width 100 [115, 116, 97, 114, 116], replicate 100 120]"
proof -
  have "text_width ex_log ''log'' = Some 100" by code_simp
  moreover have "line_bytes (LStr (replicate 101 120)) = Some (replicate 101 120)" by code_simp
  moreover have "succeeded (write_text ex_writer ex_log ''log'' (OneStr (replicate 101 120)))"
    by code_simp
  moreover have "text_records (outcome_state
      (write_text ex_writer ex_log ''log'' (OneStr (replicate 101 120)))) ''log'' =
      [fixed_width 100 [115, 116, 97, 114, 116], replicate 100 120]"
    by code_simp
  ultimately show ?thesis by blast
qed

end
